theory Spec2Isabelle
  imports Complex_Main "HOL-Library.Log_Nat"
begin

section \<open>Python values, exceptions and binary64 arithmetic\<close>

text \<open>
  The notebook \<^verbatim>\<open>examples/Improving_embeddings_with_signal_processing.ipynb\<close> is plain
  Python.  Its functions check the run-time type of their arguments with \<^verbatim>\<open>isinstance\<close>,
  so an argument is a tagged Python value.  \<^verbatim>\<open>bool\<close> is a subclass of \<^verbatim>\<open>int\<close> in Python:
  \<^verbatim>\<open>isinstance(True, int)\<close> holds and \<^verbatim>\<open>True\<close> counts as 1.

  A \<^verbatim>\<open>float\<close> is an IEEE-754 binary64 number: a finite value (a rational), an infinity or
  NaN.  The sign of zero is not tracked: no operation used here (comparison, subtraction,
  multiplication, \<^verbatim>\<open>int()\<close>) tells \<^verbatim>\<open>-0.0\<close> from \<^verbatim>\<open>0.0\<close> in its outcome.
  A \<^verbatim>\<open>str\<close> is a list of characters with code points below 256.
\<close>

datatype pyfloat = Finite rat | PosInf | NegInf | NaN

datatype pyval = PyStr string | PyInt int | PyBool bool | PyFloat pyfloat | PyNone

datatype pyerror = TypeError string | ValueError string | OverflowError string | ParameterError string

text \<open>\<^verbatim>\<open>isinstance(v, str)\<close>, \<^verbatim>\<open>isinstance(v, int)\<close>, \<^verbatim>\<open>isinstance(v, float)\<close>.\<close>

fun isinstance_str :: "pyval \<Rightarrow> bool" where
  "isinstance_str (PyStr s) = True"
| "isinstance_str v = False"

fun isinstance_int :: "pyval \<Rightarrow> bool" where
  "isinstance_int (PyInt i) = True"
| "isinstance_int (PyBool b) = True"
| "isinstance_int v = False"

fun isinstance_float :: "pyval \<Rightarrow> bool" where
  "isinstance_float (PyFloat f) = True"
| "isinstance_float v = False"

text \<open>The integer value of an \<^verbatim>\<open>int\<close> instance (0 for anything else, never used there).\<close>

fun int_value :: "pyval \<Rightarrow> int" where
  "int_value (PyInt i) = i"
| "int_value (PyBool b) = (if b then 1 else 0)"
| "int_value v = 0"

fun float_value :: "pyval \<Rightarrow> pyfloat" where
  "float_value (PyFloat f) = f"
| "float_value v = NaN"

fun str_value :: "pyval \<Rightarrow> string" where
  "str_value (PyStr s) = s"
| "str_value v = []"

subsection \<open>Rounding to binary64\<close>

text \<open>The binary exponent of a positive rational: \<open>2^e \<le> q < 2^(e+1)\<close>.\<close>

definition ilog2 :: "rat \<Rightarrow> int" where
  "ilog2 q = (let (a, b) = quotient_of q;
                  d = bitlen a - bitlen b
              in if 2 powi d \<le> q then d else d - 1)"

text \<open>Round to the nearest integer, ties to the even one.\<close>

definition round_half_even :: "rat \<Rightarrow> int" where
  "round_half_even m = (let f = \<lfloor>m\<rfloor>; d = m - of_int f
                        in if d < 1 / 2 then f
                           else if 1 / 2 < d then f + 1
                           else if even f then f else f + 1)"

text \<open>
  Round a rational to binary64, to nearest with ties to even: 53 significant bits, the
  least exponent of a normal number is -1022 (below it the spacing stays \<open>2^-1074\<close>), and a
  result of magnitude \<open>2^1024\<close> or more is an infinity.
\<close>

definition round_double :: "rat \<Rightarrow> pyfloat" where
  "round_double q =
     (if q = 0 then Finite 0
      else let e = max (ilog2 \<bar>q\<bar>) (- 1022);
               u = 2 powi (e - 52);
               r = of_int (round_half_even (q / u)) * u
           in if 2 ^ 1024 \<le> r then PosInf
              else if r \<le> - (2 ^ 1024) then NegInf
              else Finite r)"

text \<open>\<^verbatim>\<open>float(i)\<close> as Python converts an \<^verbatim>\<open>int\<close> operand of a mixed operation.\<close>

definition float_of_int :: "int \<Rightarrow> pyerror + pyfloat" where
  "float_of_int i = (case round_double (of_int i) of
                       Finite r \<Rightarrow> Inr (Finite r)
                     | _ \<Rightarrow> Inl (OverflowError ''int too large to convert to float''))"

fun float_neg :: "pyfloat \<Rightarrow> pyfloat" where
  "float_neg (Finite q) = Finite (- q)"
| "float_neg PosInf = NegInf"
| "float_neg NegInf = PosInf"
| "float_neg NaN = NaN"

fun float_add :: "pyfloat \<Rightarrow> pyfloat \<Rightarrow> pyfloat" where
  "float_add (Finite a) (Finite b) = round_double (a + b)"
| "float_add NaN y = NaN"
| "float_add x NaN = NaN"
| "float_add PosInf NegInf = NaN"
| "float_add NegInf PosInf = NaN"
| "float_add PosInf y = PosInf"
| "float_add NegInf y = NegInf"
| "float_add x PosInf = PosInf"
| "float_add x NegInf = NegInf"

definition float_sub :: "pyfloat \<Rightarrow> pyfloat \<Rightarrow> pyfloat" where
  "float_sub x y = float_add x (float_neg y)"

fun float_mul :: "pyfloat \<Rightarrow> pyfloat \<Rightarrow> pyfloat" where
  "float_mul (Finite a) (Finite b) = round_double (a * b)"
| "float_mul NaN y = NaN"
| "float_mul x NaN = NaN"
| "float_mul (Finite a) PosInf = (if a = 0 then NaN else if 0 < a then PosInf else NegInf)"
| "float_mul (Finite a) NegInf = (if a = 0 then NaN else if 0 < a then NegInf else PosInf)"
| "float_mul PosInf (Finite b) = (if b = 0 then NaN else if 0 < b then PosInf else NegInf)"
| "float_mul NegInf (Finite b) = (if b = 0 then NaN else if 0 < b then NegInf else PosInf)"
| "float_mul PosInf PosInf = PosInf"
| "float_mul NegInf NegInf = PosInf"
| "float_mul PosInf NegInf = NegInf"
| "float_mul NegInf PosInf = NegInf"

text \<open>\<^verbatim>\<open>x < i\<close> and \<^verbatim>\<open>x > i\<close> for a float \<open>x\<close> and a small integer literal \<open>i\<close>; false on NaN.\<close>

fun float_lt_int :: "pyfloat \<Rightarrow> int \<Rightarrow> bool" where
  "float_lt_int (Finite q) i = (q < of_int i)"
| "float_lt_int NegInf i = True"
| "float_lt_int PosInf i = False"
| "float_lt_int NaN i = False"

fun float_gt_int :: "pyfloat \<Rightarrow> int \<Rightarrow> bool" where
  "float_gt_int (Finite q) i = (of_int i < q)"
| "float_gt_int PosInf i = True"
| "float_gt_int NegInf i = False"
| "float_gt_int NaN i = False"

text \<open>\<^verbatim>\<open>int(x)\<close> of a float: truncation towards zero; NaN and the infinities raise.\<close>

definition trunc_rat :: "rat \<Rightarrow> int" where
  "trunc_rat q = (if 0 \<le> q then \<lfloor>q\<rfloor> else \<lceil>q\<rceil>)"

fun int_of_float :: "pyfloat \<Rightarrow> pyerror + int" where
  "int_of_float (Finite q) = Inr (trunc_rat q)"
| "int_of_float NaN = Inl (ValueError ''cannot convert float NaN to integer'')"
| "int_of_float PosInf = Inl (OverflowError ''cannot convert float infinity to integer'')"
| "int_of_float NegInf = Inl (OverflowError ''cannot convert float infinity to integer'')"

text \<open>\<^verbatim>\<open>int(n * x)\<close> for an \<^verbatim>\<open>int\<close> \<open>n\<close> and a float \<open>x\<close>: convert, multiply, truncate.\<close>

definition int_times_float :: "int \<Rightarrow> pyfloat \<Rightarrow> pyerror + int" where
  "int_times_float n x = (case float_of_int n of
                            Inl e \<Rightarrow> Inl e
                          | Inr fn \<Rightarrow> int_of_float (float_mul fn x))"

section \<open>The segmenter: \<^verbatim>\<open>split_text\<close>\<close>

text \<open>
  \<^verbatim>\<open>str.split()\<close> with no argument: the maximal runs of non-whitespace characters, in
  order.  The whitespace characters below code point 256 are those of \<^verbatim>\<open>str.isspace\<close>:
  9 to 13, 28 to 32, 133 and 160.
\<close>

definition is_space :: "char \<Rightarrow> bool" where
  "is_space c = (let n = of_char c :: nat
                 in (9 \<le> n \<and> n \<le> 13) \<or> (28 \<le> n \<and> n \<le> 32) \<or> n = 133 \<or> n = 160)"

fun split_ws :: "string \<Rightarrow> string \<Rightarrow> string list" where
  "split_ws cur [] = (if cur = [] then [] else [cur])"
| "split_ws cur (c # cs) =
     (if is_space c then (if cur = [] then split_ws [] cs else cur # split_ws [] cs)
      else split_ws (cur @ [c]) cs)"

definition py_split :: "string \<Rightarrow> string list" where
  "py_split s = split_ws [] s"

text \<open>\<^verbatim>\<open>" ".join(ws)\<close>.\<close>

fun join_space :: "string list \<Rightarrow> string" where
  "join_space [] = []"
| "join_space [w] = w"
| "join_space (w # v # ws) = w @ '' '' @ join_space (v # ws)"

text \<open>
  \<^verbatim>\<open>range(0, n, step)\<close> for \<open>n \<ge> 0\<close>: Python raises \<^verbatim>\<open>ValueError\<close> when the step is zero, and
  the range is empty when the step is negative.
\<close>

function range_up :: "nat \<Rightarrow> nat \<Rightarrow> nat \<Rightarrow> nat list" where
  "range_up i n s = (if s = 0 \<or> n \<le> i then [] else i # range_up (i + s) n s)"
  by pat_completeness auto
termination
  by (relation "measure (\<lambda>(i, n, s). n - i)") auto

declare range_up.simps [simp del]

definition py_range0 :: "nat \<Rightarrow> int \<Rightarrow> pyerror + nat list" where
  "py_range0 n step =
     (if step = 0 then Inl (ValueError ''range() arg 3 must not be zero'')
      else if step < 0 then Inr []
      else Inr (range_up 0 n (nat step)))"

text \<open>The slice \<^verbatim>\<open>words[i:i+segment_length]\<close> for \<open>i \<ge> 0\<close> and a positive length.\<close>

definition slice_from :: "'a list \<Rightarrow> nat \<Rightarrow> nat \<Rightarrow> 'a list" where
  "slice_from ws i len = take len (drop i ws)"

text \<open>
  \<^verbatim>\<open>
  def split_text(text, segment_length=40, overlap_percent=0.5):
      if not isinstance(text, str):
          raise TypeError("text must be a string")
      if not isinstance(segment_length, int) or segment_length <= 0:
          raise ValueError("segment_length must be a positive integer")
      if not isinstance(overlap_percent, float) or overlap_percent < 0 or overlap_percent > 1:
          raise ValueError("overlap_percent must be a float between 0 and 1")
      segments = []
      words = text.split()
      skip = int(segment_length * (1 - overlap_percent))
      for i in range(0, len(words), skip):
          segment = " ".join(words[i:i+segment_length])
          segments.append(segment)
      return segments
  \<close>
\<close>

definition skip_of :: "int \<Rightarrow> pyfloat \<Rightarrow> pyerror + int" where
  "skip_of segment_length overlap_percent =
     int_times_float segment_length (float_sub (Finite 1) overlap_percent)"

definition append_segment :: "string list \<Rightarrow> nat \<Rightarrow> string list \<Rightarrow> nat \<Rightarrow> string list" where
  "append_segment words segment_length segments i =
     segments @ [join_space (slice_from words i segment_length)]"

definition split_text :: "pyval \<Rightarrow> pyval \<Rightarrow> pyval \<Rightarrow> pyerror + string list" where
  "split_text text segment_length overlap_percent =
     (if \<not> isinstance_str text then Inl (TypeError ''text must be a string'')
      else if \<not> isinstance_int segment_length \<or> int_value segment_length \<le> 0
        then Inl (ValueError ''segment_length must be a positive integer'')
      else if \<not> isinstance_float overlap_percent
              \<or> float_lt_int (float_value overlap_percent) 0
              \<or> float_gt_int (float_value overlap_percent) 1
        then Inl (ValueError ''overlap_percent must be a float between 0 and 1'')
      else let words = py_split (str_value text) in
        case skip_of (int_value segment_length) (float_value overlap_percent) of
          Inl e \<Rightarrow> Inl e
        | Inr skip \<Rightarrow>
            (case py_range0 (length words) skip of
               Inl e \<Rightarrow> Inl e
             | Inr is \<Rightarrow>
                 Inr (foldl (append_segment words (nat (int_value segment_length))) [] is)))"


section \<open>Arrays and the lowpass filter\<close>

text \<open>
  The short-time representation that \<^verbatim>\<open>get_fft\<close> returns for an \<open>N \<times> D\<close> embedding matrix is a
  three-dimensional complex numpy array; \<^verbatim>\<open>librosa.stft\<close> documents its shape as
  \<^verbatim>\<open>(..., 1 + n_fft/2, n_frames)\<close>.  It is modelled as the list of its slices along axis 0,
  each a list of frequency-bin rows, each row a list of frames: \<open>a ! i ! j ! t\<close> is
  \<^verbatim>\<open>a[i, j, t]\<close>.  \<^verbatim>\<open>a.shape[1]\<close> is the length of axis 1.

  numpy arrays are mutable objects, so the store is explicit: a heap is the list of the
  arrays allocated so far and a reference is an index into it.
\<close>

type_synonym spectrum = "complex list list list"

type_synonym heap = "spectrum list"

definition shape1 :: "'a list list list \<Rightarrow> nat" where
  "shape1 a = (case a of [] \<Rightarrow> 0 | c # cs \<Rightarrow> length c)"

definition shape2 :: "'a list list list \<Rightarrow> nat" where
  "shape2 a = (case a of [] \<Rightarrow> 0 | c # cs \<Rightarrow> (case c of [] \<Rightarrow> 0 | r # rs \<Rightarrow> length r))"

text \<open>The first index of the slice \<^verbatim>\<open>k:\<close> on an axis of length \<open>n\<close>; a negative \<open>k\<close> counts from the end.\<close>

definition slice_start :: "int \<Rightarrow> nat \<Rightarrow> nat" where
  "slice_start k n = (if k < 0 then nat (max 0 (int n + k)) else min (nat k) n)"

text \<open>\<^verbatim>\<open>a[:, k:] = 0\<close>: in every slice along axis 0, the rows of axis 1 from \<open>k\<close> on become zero.\<close>

definition zero_rows_from :: "nat \<Rightarrow> complex list list \<Rightarrow> complex list list" where
  "zero_rows_from s rows = take s rows @ map (map (\<lambda>x. 0)) (drop s rows)"

definition assign_zero_axis1 :: "int \<Rightarrow> spectrum \<Rightarrow> spectrum" where
  "assign_zero_axis1 k a = map (\<lambda>c. zero_rows_from (slice_start k (length c)) c) a"

text \<open>
  \<^verbatim>\<open>
  def lowpass_filter(fft, cutoff=0.5):
      fft = fft.copy()
      fft[:, int(cutoff*fft.shape[1]):] = 0
      return fft
  \<close>
  The argument \<open>fft\<close> is a reference into the heap \<open>h\<close>.  \<^verbatim>\<open>copy()\<close> allocates a new array,
  the slice assignment writes into that new array, and its reference is returned.  When
  \<^verbatim>\<open>int()\<close> raises, the copy has been allocated and nothing has been written.
\<close>

definition cutoff_index :: "pyfloat \<Rightarrow> nat \<Rightarrow> pyerror + int" where
  "cutoff_index cutoff n = int_times_float (int n) cutoff"

definition lowpass_filter :: "heap \<Rightarrow> nat \<Rightarrow> pyfloat \<Rightarrow> (pyerror + nat) \<times> heap" where
  "lowpass_filter h fft cutoff =
     (let copy = length h;
          h1 = h @ [h ! fft]
      in case cutoff_index cutoff (shape1 (h1 ! copy)) of
           Inl e \<Rightarrow> (Inl e, h1)
         | Inr k \<Rightarrow> (Inr copy, h1[copy := assign_zero_axis1 k (h1 ! copy)]))"

text \<open>The array a caller gets back from \<^verbatim>\<open>lowpass_filter(a, cutoff)\<close>.\<close>

definition lowpass_filtered :: "spectrum \<Rightarrow> pyfloat \<Rightarrow> pyerror + spectrum" where
  "lowpass_filtered a cutoff =
     (case lowpass_filter [a] 0 cutoff of
        (Inl e, h') \<Rightarrow> Inl e
      | (Inr r, h') \<Rightarrow> Inr (h' ! r))"

text \<open>
  A text of 100 distinct words for examples, with single and double spaces between the
  words and spaces at both ends.
\<close>

definition sample_text :: string where
  "sample_text =
     '' aa  ab  ac  ad  ae  af  ag  ah  ai  aj  ak  al  am  an  ao  ap  aq  ar  as  at  au  av  aw  ax  ay  az  ba  bb  bc  bd  be  bf  bg  bh  bi  bj  bk  bl  bm  bn  bo  bp  bq  br  bs  bt  bu  bv  bw  bx by bz ca cb cc cd ce cf cg ch ci cj ck cl cm cn co cp cq cr cs ct cu cv cw cx cy cz da db dc dd de df dg dh di dj dk dl dm dn do dp dq dr ds dt du dv  ''"

text \<open>A small array for examples: one slice, two frequency bins, two frames.\<close>

definition small_spectrum :: spectrum where
  "small_spectrum = [[[1, 2], [3, 4]]]"

section \<open>The short-time Fourier transform and its inverse\<close>

text \<open>
  \<^verbatim>\<open>
  def get_fft(embedding):
      return librosa.stft(embedding, n_fft=32, win_length=4)
  def fft_to_embedding(fft):
      return librosa.istft(fft, win_length=4)
  \<close>
  \<^verbatim>\<open>librosa.stft\<close> and \<^verbatim>\<open>librosa.istft\<close> are library functions; they are modelled as librosa
  0.10 documents and implements them, with the defaults the calls leave in place:
  \<^verbatim>\<open>hop_length = win_length // 4\<close>, \<^verbatim>\<open>window = 'hann'\<close>, \<^verbatim>\<open>center = True\<close>,
  \<^verbatim>\<open>pad_mode = 'constant'\<close>.  The input \<^verbatim>\<open>y\<close> has shape \<^verbatim>\<open>(..., n)\<close>: the last axis is the
  time axis and every leading axis indexes a channel.  Embedding values are real numbers
  and the arithmetic on them is exact: the rounding and the overflow of binary64 inside
  the transforms are not part of the model, so what is proved about the values of a
  transform is proved in exact arithmetic.
\<close>

definition n_fft :: nat where "n_fft = 32"

definition win_length :: nat where "win_length = 4"

definition hop_length :: nat where "hop_length = win_length div 4"

text \<open>\<^verbatim>\<open>scipy.signal.get_window('hann', M, fftbins=True)\<close>: the periodic Hann window.\<close>

definition hann :: "nat \<Rightarrow> real list" where
  "hann M = map (\<lambda>n. 1 / 2 - 1 / 2 * cos (2 * pi * real n / real M)) [0..<M]"

text \<open>\<^verbatim>\<open>librosa.util.pad_center(data, size=n)\<close> for \<open>n\<close> at least the length of the data.\<close>

definition pad_center :: "real list \<Rightarrow> nat \<Rightarrow> real list" where
  "pad_center xs n = (let lpad = (n - length xs) div 2
                      in replicate lpad 0 @ xs @ replicate (n - length xs - lpad) 0)"

definition fft_window :: "nat \<Rightarrow> real list" where
  "fft_window n = pad_center (hann win_length) n"

text \<open>\<^verbatim>\<open>numpy.fft.rfft\<close>: the bins \<open>0 .. n div 2\<close> of the discrete Fourier transform of a real signal.\<close>

definition rfft_bin :: "real list \<Rightarrow> nat \<Rightarrow> complex" where
  "rfft_bin v k =
     sum_list (map (\<lambda>j. of_real (v ! j) * cis (- (2 * pi * real k * real j / real (length v))))
                [0..<length v])"

definition rfft :: "real list \<Rightarrow> complex list" where
  "rfft v = map (rfft_bin v) [0..<length v div 2 + 1]"

text \<open>
  \<^verbatim>\<open>numpy.fft.irfft(c, n)\<close> for even \<open>n\<close> and \<open>n div 2 + 1\<close> bins: the real signal whose
  spectrum is the Hermitian extension of \<open>c\<close>; the imaginary parts of the first and of the
  last bin are ignored.
\<close>

definition irfft_sample :: "complex list \<Rightarrow> nat \<Rightarrow> nat \<Rightarrow> real" where
  "irfft_sample c n m =
     (Re (c ! 0)
      + sum_list (map (\<lambda>k. 2 * Re (c ! k * cis (2 * pi * real k * real m / real n)))
                   [1..<n div 2])
      + Re (c ! (n div 2)) * cos (pi * real m)) / real n"

definition irfft :: "complex list \<Rightarrow> nat \<Rightarrow> real list" where
  "irfft c n = map (irfft_sample c n) [0..<n]"

text \<open>
  The transform of one signal.  With \<^verbatim>\<open>center=True\<close> the signal is padded with
  \<open>n_fft div 2\<close> zeros on both sides, frame \<open>t\<close> is the \<open>n_fft\<close> samples from \<open>t * hop_length\<close> on,
  multiplied by the window; the result is indexed by frequency bin, then by frame.
\<close>

definition pad_signal :: "real list \<Rightarrow> real list" where
  "pad_signal y = replicate (n_fft div 2) 0 @ y @ replicate (n_fft div 2) 0"

definition n_frames_of :: "real list \<Rightarrow> nat" where
  "n_frames_of y = 1 + (length (pad_signal y) - n_fft) div hop_length"

definition windowed_frame :: "real list \<Rightarrow> nat \<Rightarrow> real list" where
  "windowed_frame y t =
     map2 (*) (fft_window n_fft) (take n_fft (drop (t * hop_length) (pad_signal y)))"

definition stft_1d :: "real list \<Rightarrow> complex list list" where
  "stft_1d y = map (\<lambda>k. map (\<lambda>t. rfft_bin (windowed_frame y t) k) [0..<n_frames_of y])
                 [0..<1 + n_fft div 2]"

text \<open>
  \<^verbatim>\<open>get_fft\<close> on the \<open>N \<times> D\<close> matrix of one document, given as the list of its \<open>N \<ge> 1\<close> rows
  (one row per chunk, \<^verbatim>\<open>np.array(doc)\<close>): the last axis, of length \<open>D\<close>, is the time axis.
\<close>

definition get_fft :: "real list list \<Rightarrow> spectrum" where
  "get_fft embedding = map stft_1d embedding"

text \<open>
  The inverse of one signal: \<open>n_fft\<close> is twice the number of bins minus two, every frame
  is inverted and multiplied by the window, the frames are added at their offsets, the sum
  is divided by the sum of the squared windows where that exceeds the least normal
  binary64 number, and \<open>n_fft div 2\<close> samples are cut from both ends.
\<close>

definition tiny :: real where "tiny = 1 / 2 ^ 1022"

definition column :: "complex list list \<Rightarrow> nat \<Rightarrow> complex list" where
  "column X t = map (\<lambda>row. row ! t) X"

definition istft_frame :: "complex list list \<Rightarrow> nat \<Rightarrow> nat \<Rightarrow> real list" where
  "istft_frame X n t = map2 (*) (fft_window n) (irfft (column X t) n)"

definition overlap_add :: "complex list list \<Rightarrow> nat \<Rightarrow> nat \<Rightarrow> nat \<Rightarrow> real" where
  "overlap_add X n frames p =
     sum_list (map (\<lambda>t. if t * hop_length \<le> p \<and> p < t * hop_length + n
                         then istft_frame X n t ! (p - t * hop_length) else 0) [0..<frames])"

definition window_sumsquare :: "nat \<Rightarrow> nat \<Rightarrow> nat \<Rightarrow> real" where
  "window_sumsquare n frames p =
     sum_list (map (\<lambda>t. if t * hop_length \<le> p \<and> p < t * hop_length + n
                         then (fft_window n ! (p - t * hop_length))\<^sup>2 else 0) [0..<frames])"

definition istft_1d :: "complex list list \<Rightarrow> real list" where
  "istft_1d X =
     (let n = 2 * (length X - 1);
          frames = length (hd X);
          expected_signal_len = n + hop_length * (frames - 1) - 2 * (n div 2)
      in map (\<lambda>j. let p = j + n div 2
                   in if tiny < window_sumsquare n frames p
                      then overlap_add X n frames p / window_sumsquare n frames p
                      else overlap_add X n frames p)
             [0..<expected_signal_len])"

text \<open>
  \<^verbatim>\<open>fft_to_embedding\<close> on a representation with at least one slice: \<^verbatim>\<open>pad_center\<close> raises
  \<^verbatim>\<open>ParameterError\<close> when the window is longer than the inferred \<open>n_fft\<close>, and numpy refuses
  the negative output length that zero frames give.
\<close>

definition fft_to_embedding :: "spectrum \<Rightarrow> pyerror + real list list" where
  "fft_to_embedding fft =
     (if 2 * int (shape1 fft) - 2 < int win_length
        then Inl (ParameterError ''Target size must be at least input size'')
      else if shape2 fft = 0
        then Inl (ValueError ''negative dimensions are not allowed'')
      else Inr (map istft_1d fft))"

text \<open>\<^verbatim>\<open>np.mean(embeddings, axis=0)\<close> for an \<open>N \<times> D\<close> array with \<open>N \<ge> 1\<close>.\<close>

definition mean_axis0 :: "real list list \<Rightarrow> real list" where
  "mean_axis0 e = map (\<lambda>j. sum_list (map (\<lambda>row. row ! j) e) / real (length e))
                    [0..<length (hd e)]"

text \<open>
  The notebook's pipeline for one document (the cell after the definitions): transform,
  filter when \<^verbatim>\<open>apply_lowpass\<close> is set, invert, average over axis 0.  The notebook calls
  \<^verbatim>\<open>lowpass_filter(fft)\<close> with the default cutoff 0.5.
\<close>

definition aggregate :: "real list list \<Rightarrow> pyfloat \<Rightarrow> bool \<Rightarrow> pyerror + real list" where
  "aggregate embedding cutoff apply_lowpass =
     (case (if apply_lowpass then lowpass_filtered (get_fft embedding) cutoff
            else Inr (get_fft embedding)) of
        Inl e \<Rightarrow> Inl e
      | Inr fft \<Rightarrow> (case fft_to_embedding fft of
                      Inl e \<Rightarrow> Inl e
                    | Inr lowpass \<Rightarrow> Inr (mean_axis0 lowpass)))"

text \<open>
  The transform the specification describes, for comparison: one signal per embedding
  dimension, running over the chunk position.
\<close>

definition stft_along_chunk_axis :: "real list list \<Rightarrow> spectrum" where
  "stft_along_chunk_axis embedding = map stft_1d (transpose embedding)"

text \<open>
  The spec's \<^verbatim>\<open>InvalidArgument\<close> condition is what the validation block raises in Python: a
  \<^verbatim>\<open>TypeError\<close> for a text that is not a string and a \<^verbatim>\<open>ValueError\<close> for a bad number.
\<close>

fun InvalidArgument :: "pyerror \<Rightarrow> bool" where
  "InvalidArgument (TypeError m) = True"
| "InvalidArgument (ValueError m) = True"
| "InvalidArgument (OverflowError m) = False"
| "InvalidArgument (ParameterError m) = False"

section \<open>Properties of the binary64 model\<close>

lemma quotient_of_pos:
  assumes "0 < q" "quotient_of q = (a, b)"
  shows "0 < a" "0 < b" "q = of_int a / of_int b"
proof -
  show b: "0 < b" using assms(2) quotient_of_denom_pos by blast
  show q: "q = of_int a / of_int b" using assms(2) by (simp add: quotient_of_div)
  show "0 < a" using assms(1) b q by (simp add: zero_less_divide_iff)
qed

lemma pow_bitlen:
  fixes a :: int assumes "0 < a"
  shows "(2::rat) powi (bitlen a - 1) \<le> of_int a" "(of_int a :: rat) < 2 powi (bitlen a)"
proof -
  have b: "1 \<le> bitlen a" using assms by (auto simp: bitlen_alt_def)
  have "2 ^ nat (bitlen a - 1) \<le> a" "a < 2 ^ nat (bitlen a)"
    using bitlen_bounds[OF assms] by auto
  then have "(of_int (2 ^ nat (bitlen a - 1)) :: rat) \<le> of_int a"
       "(of_int a :: rat) < of_int (2 ^ nat (bitlen a))"
    by (simp_all only: of_int_le_iff of_int_less_iff)
  then show "(2::rat) powi (bitlen a - 1) \<le> of_int a" "(of_int a :: rat) < 2 powi (bitlen a)"
    using b by (simp_all add: power_int_def)
qed

lemma ilog2_bounds:
  assumes "0 < q"
  shows "2 powi (ilog2 q) \<le> q \<and> q < 2 powi (ilog2 q + 1)"
proof -
  obtain a b where ab: "quotient_of q = (a, b)" by (cases "quotient_of q")
  note p = quotient_of_pos[OF assms ab]
  let ?d = "bitlen a - bitlen b"
  have a1: "(2::rat) powi (bitlen a - 1) \<le> of_int a" and a2: "(of_int a :: rat) < 2 powi (bitlen a)"
    using pow_bitlen[OF p(1)] by auto
  have b1: "(2::rat) powi (bitlen b - 1) \<le> of_int b" and b2: "(of_int b :: rat) < 2 powi (bitlen b)"
    using pow_bitlen[OF p(2)] by auto
  have bpos: "(0::rat) < of_int b" and apos: "(0::rat) < of_int a" using p by auto
  have up: "q < 2 powi (?d + 1)"
  proof -
    have "of_int a < (2::rat) powi (bitlen a)" by (rule a2)
    also have "\<dots> = 2 powi (?d + 1) * 2 powi (bitlen b - 1)"
      by (simp add: power_int_add [symmetric])
    also have "\<dots> \<le> 2 powi (?d + 1) * of_int b"
      using b1 by (simp add: mult_left_mono)
    finally show ?thesis using bpos p(3) by (simp add: pos_divide_less_eq)
  qed
  have lo: "2 powi (?d - 1) < q"
  proof -
    have "2 powi (?d - 1) * of_int b < 2 powi (?d - 1) * (2::rat) powi (bitlen b)"
      using b2 by (simp add: mult_strict_left_mono)
    also have "\<dots> = 2 powi (bitlen a - 1)"
      by (simp add: power_int_add [symmetric])
    also have "\<dots> \<le> of_int a" by (rule a1)
    finally show ?thesis using bpos p(3) by (simp add: pos_less_divide_eq)
  qed
  show ?thesis
  proof (cases "2 powi ?d \<le> q")
    case True
    then have "ilog2 q = ?d" by (simp add: ilog2_def ab)
    with True up show ?thesis by simp
  next
    case False
    then have "ilog2 q = ?d - 1" by (simp add: ilog2_def ab)
    with False lo show ?thesis by simp
  qed
qed

lemma pow2_less_cancel: "(2::rat) powi a < 2 powi b \<Longrightarrow> a < b"
proof (rule ccontr)
  assume h: "(2::rat) powi a < 2 powi b" and n: "\<not> a < b"
  from n have "b \<le> a" by simp
  then have "(2::rat) powi b \<le> 2 powi a" by (intro power_int_increasing) auto
  with h show False by simp
qed

lemma ilog2_unique:
  assumes "0 < q" "2 powi e \<le> q" "q < 2 powi (e + 1)"
  shows "ilog2 q = e"
proof -
  have b: "2 powi (ilog2 q) \<le> q" "q < 2 powi (ilog2 q + 1)" using ilog2_bounds[OF assms(1)] by auto
  have "(2::rat) powi e < 2 powi (ilog2 q + 1)" using assms(2) b(2) by simp
  then have 1: "e < ilog2 q + 1" by (rule pow2_less_cancel)
  have "(2::rat) powi (ilog2 q) < 2 powi (e + 1)" using assms(3) b(1) by simp
  then have 2: "ilog2 q < e + 1" by (rule pow2_less_cancel)
  from 1 2 show ?thesis by simp
qed

lemma round_half_even_of_int [simp]: "round_half_even (of_int n) = n"
  by (simp add: round_half_even_def)

lemma round_half_even_bounds: "\<lfloor>m\<rfloor> \<le> round_half_even m" "round_half_even m \<le> \<lfloor>m\<rfloor> + 1"
  by (simp_all add: round_half_even_def Let_def)

lemma pow2_pos [simp]: "(0::rat) < 2 powi k"
  by (simp add: power_int_def)

lemma pow2_add: "(2::rat) powi (a + b) = 2 powi a * 2 powi b"
  by (simp add: power_int_add)

lemma pow2_split53: "(2::rat) powi (e + 1) = 2 powi 53 * 2 powi (e - 52)"
proof -
  have "e + 1 = 53 + (e - 52)" by simp
  then show ?thesis by (simp only: pow2_add)
qed

lemma round_double_exact:
  assumes m: "m \<noteq> 0" "\<bar>m\<bar> < 2 ^ 53" and k: "- 1074 \<le> k" "k \<le> 971"
  shows "round_double (of_int m * 2 powi k) = Finite (of_int m * 2 powi k)"
proof -
  let ?q = "of_int m * 2 powi k :: rat"
  have q0: "?q \<noteq> 0" using m by simp
  have aq: "\<bar>?q\<bar> = of_int \<bar>m\<bar> * 2 powi k" by (simp add: abs_mult)
  have apos: "0 < \<bar>?q\<bar>" using q0 by simp
  have "(of_int \<bar>m\<bar> :: rat) < of_int (2 ^ 53)" using m(2) by (simp only: of_int_less_iff)
  then have "(of_int \<bar>m\<bar> :: rat) < 2 powi 53" by simp
  then have lt: "\<bar>?q\<bar> < 2 powi 53 * 2 powi k" unfolding aq by (simp add: mult_strict_right_mono)
  then have lt': "\<bar>?q\<bar> < 2 powi (53 + k)" by (simp only: pow2_add)
  define e where "e = max (ilog2 \<bar>?q\<bar>) (- 1022)"
  have "2 powi (ilog2 \<bar>?q\<bar>) \<le> \<bar>?q\<bar>" using ilog2_bounds[OF apos] by simp
  with lt' have "(2::rat) powi (ilog2 \<bar>?q\<bar>) < 2 powi (53 + k)" by simp
  then have "ilog2 \<bar>?q\<bar> < 53 + k" by (rule pow2_less_cancel)
  then have pk: "e - 52 \<le> k" using k by (simp add: e_def)
  define j where "j = nat (k - (e - 52))"
  have kj: "k = (e - 52) + int j" using pk by (simp add: j_def)
  have pw: "(2::rat) powi k = 2 powi (e - 52) * 2 ^ j"
    by (subst kj) (simp add: power_int_add)
  then have div: "?q / 2 powi (e - 52) = of_int (m * 2 ^ j)"
    by simp
  have r: "of_int (round_half_even (?q / 2 powi (e - 52))) * 2 powi (e - 52) = ?q"
    unfolding div round_half_even_of_int by (simp add: pw)
  have "53 + k \<le> 1024" using k by simp
  then have "(2::rat) powi (53 + k) \<le> 2 powi 1024" by (intro power_int_increasing) auto
  with lt' have fin: "\<bar>?q\<bar> < 2 ^ 1024" by simp
  then have f1: "\<not> 2 ^ 1024 \<le> ?q" and f2: "\<not> ?q \<le> - (2 ^ 1024)" by (simp_all add: abs_less_iff)
  show ?thesis
    unfolding round_double_def Let_def e_def [symmetric] r
    using q0 f1 f2 by simp
qed

lemma round_double_nonneg:
  assumes q: "0 \<le> q" "q < 2 powi n" and n: "- 1021 \<le> n" "n \<le> 1023"
  shows "\<exists>r. round_double q = Finite r \<and> 0 \<le> r \<and> r \<le> 2 powi n"
proof (cases "q = 0")
  case True
  then show ?thesis by (simp add: round_double_def less_imp_le)
next
  case False
  with q have qpos: "0 < q" by simp
  then have aq: "\<bar>q\<bar> = q" by simp
  define e where "e = max (ilog2 q) (- 1022)"
  define u :: rat where "u = 2 powi (e - 52)"
  define z where "z = round_half_even (q / u)"
  have upos: "0 < u" by (simp add: u_def)
  have b: "2 powi (ilog2 q) \<le> q" "q < 2 powi (ilog2 q + 1)" using ilog2_bounds[OF qpos] by auto
  from b(1) q(2) have "(2::rat) powi (ilog2 q) < 2 powi n" by simp
  then have "ilog2 q < n" by (rule pow2_less_cancel)
  then have en: "e + 1 \<le> n" using n by (simp add: e_def)
  have "ilog2 q + 1 \<le> e + 1" by (simp add: e_def)
  then have "(2::rat) powi (ilog2 q + 1) \<le> 2 powi (e + 1)" by (intro power_int_increasing) auto
  with b(2) have "q < 2 powi (e + 1)" by simp
  also have "(2::rat) powi (e + 1) = 2 powi 53 * u"
    unfolding u_def by (rule pow2_split53)
  finally have "q / u < 2 powi 53" using upos by (simp add: pos_divide_less_eq)
  then have mlt: "q / u < of_int (2 ^ 53)" by simp
  have "\<lfloor>q / u\<rfloor> < 2 ^ 53" using mlt by (simp only: floor_less_iff)
  then have zle: "z \<le> 2 ^ 53" using round_half_even_bounds(2)[of "q / u"] unfolding z_def by linarith
  have "0 \<le> q / u" using qpos upos by simp
  then have "0 \<le> \<lfloor>q / u\<rfloor>" by simp
  then have zge: "0 \<le> z" using round_half_even_bounds(1)[of "q / u"] unfolding z_def by linarith
  have "(of_int z :: rat) \<le> of_int (2 ^ 53)" using zle by (simp only: of_int_le_iff)
  then have "(of_int z :: rat) \<le> 2 powi 53" by simp
  then have "of_int z * u \<le> 2 powi 53 * u" using upos by (simp add: mult_right_mono)
  also have "2 powi 53 * u = 2 powi (e + 1)"
    unfolding u_def by (rule pow2_split53 [symmetric])
  also have "\<dots> \<le> 2 powi n" using en by (intro power_int_increasing) auto
  finally have rle: "of_int z * u \<le> 2 powi n" .
  have "(2::rat) powi n \<le> 2 powi 1023" using n by (intro power_int_increasing) auto
  also have "\<dots> < 2 powi 1024" by (intro power_int_strict_increasing) auto
  finally have "of_int z * u < 2 ^ 1024" using rle by simp
  then have f1: "\<not> 2 ^ 1024 \<le> of_int z * u" by simp
  have rge: "0 \<le> of_int z * u" using zge upos by simp
  then have f2: "\<not> of_int z * u \<le> - (2 ^ 1024)" by simp
  have "round_double q = Finite (of_int z * u)"
    unfolding round_double_def Let_def aq e_def [symmetric] u_def [symmetric] z_def [symmetric]
    using False f1 f2 by simp
  with rge rle show ?thesis by simp
qed


text \<open>The constants the notebook uses are binary64 numbers, so rounding leaves them alone.\<close>

lemma round_double_0: "round_double 0 = Finite 0"
  by (simp add: round_double_def)

lemma round_double_half: "round_double (1 / 2) = Finite (1 / 2)"
  using round_double_exact[of 1 "- 1"] by simp

lemma round_double_20: "round_double 20 = Finite 20"
  using round_double_exact[of 20 0] by simp

lemma round_double_40: "round_double 40 = Finite 40"
  using round_double_exact[of 40 0] by simp

lemma skip_of_40_half: "skip_of 40 (Finite (1 / 2)) = Inr 20"
  by (simp add: skip_of_def int_times_float_def float_sub_def float_of_int_def trunc_rat_def
      round_double_half round_double_20 round_double_40)

lemma skip_of_40_one: "skip_of 40 (Finite 1) = Inr 0"
  by (simp add: skip_of_def int_times_float_def float_sub_def float_of_int_def trunc_rat_def
      round_double_40 round_double_0)

section \<open>Properties of the segmenter\<close>

lemma foldl_append_segment:
  "foldl (append_segment ws n) acc is = acc @ map (\<lambda>i. join_space (slice_from ws i n)) is"
  by (induction "is" arbitrary: acc) (simp_all add: append_segment_def)

lemma range_up_100_20: "range_up 0 100 20 = [0, 20, 40, 60, 80]"
  by (simp add: range_up.simps)

lemma split_ws_words:
  "split_ws [] (concat (replicate n ''ab '')) = replicate n ''ab''"
  by (induction n) (simp_all add: is_space_def)

lemma py_split_words: "py_split (concat (replicate n ''ab '')) = replicate n ''ab''"
  by (simp add: py_split_def split_ws_words)

lemma join_space_explicit:
  "ws \<noteq> [] \<Longrightarrow> join_space ws = concat (map (\<lambda>w. w @ '' '') (butlast ws)) @ last ws"
  by (induction ws rule: join_space.induct) simp_all

lemma split_ws_word:
  "\<forall>c \<in> set w. \<not> is_space c \<Longrightarrow> split_ws cur (w @ rest) = split_ws (cur @ w) rest"
  by (induction w arbitrary: cur) simp_all

lemma split_ws_clean:
  assumes "\<forall>c \<in> set cur. \<not> is_space c" and "w \<in> set (split_ws cur s)"
  shows "w \<noteq> [] \<and> (\<forall>c \<in> set w. \<not> is_space c)"
  using assms
proof (induction s arbitrary: cur)
  case Nil
  then show ?case by (auto split: if_splits)
next
  case (Cons c cs)
  show ?case
  proof (cases "is_space c")
    case True
    with Cons.prems have "w = cur \<and> cur \<noteq> [] \<or> w \<in> set (split_ws [] cs)"
      by (auto split: if_splits)
    then show ?thesis using Cons.IH[of "[]"] Cons.prems(1) by auto
  next
    case False
    with Cons.prems have "w \<in> set (split_ws (cur @ [c]) cs)" by simp
    moreover have "\<forall>x \<in> set (cur @ [c]). \<not> is_space x" using False Cons.prems(1) by auto
    ultimately show ?thesis using Cons.IH[of "cur @ [c]"] by blast
  qed
qed

lemma py_split_clean:
  "w \<in> set (py_split s) \<Longrightarrow> w \<noteq> [] \<and> (\<forall>c \<in> set w. \<not> is_space c)"
  unfolding py_split_def by (rule split_ws_clean[of "[]"]) simp_all

lemma is_space_space: "is_space CHR '' ''"
  by (simp add: is_space_def)

lemma split_ws_join_space:
  assumes "\<forall>w \<in> set ws. w \<noteq> [] \<and> (\<forall>c \<in> set w. \<not> is_space c)"
  shows "split_ws [] (join_space ws) = ws"
  using assms
proof (induction ws rule: join_space.induct)
  case 1
  then show ?case by simp
next
  case (2 w)
  then have "split_ws [] (w @ []) = split_ws ([] @ w) []" by (intro split_ws_word) simp
  with 2 show ?case by simp
next
  case (3 w v ws)
  then have "split_ws [] (w @ (CHR '' '' # join_space (v # ws)))
               = split_ws ([] @ w) (CHR '' '' # join_space (v # ws))"
    by (intro split_ws_word) simp
  with 3 show ?case by (simp add: is_space_space)
qed

lemma py_split_join_space:
  assumes "set ws \<subseteq> set (py_split s)"
  shows "py_split (join_space ws) = ws"
  unfolding py_split_def
  by (rule split_ws_join_space) (use assms py_split_clean in blast)

lemma py_split_sample_text:
  "py_split sample_text =
     [''aa'', ''ab'', ''ac'', ''ad'', ''ae'', ''af'', ''ag'', ''ah'', ''ai'', ''aj'',
      ''ak'', ''al'', ''am'', ''an'', ''ao'', ''ap'', ''aq'', ''ar'', ''as'', ''at'',
      ''au'', ''av'', ''aw'', ''ax'', ''ay'', ''az'', ''ba'', ''bb'', ''bc'', ''bd'',
      ''be'', ''bf'', ''bg'', ''bh'', ''bi'', ''bj'', ''bk'', ''bl'', ''bm'', ''bn'',
      ''bo'', ''bp'', ''bq'', ''br'', ''bs'', ''bt'', ''bu'', ''bv'', ''bw'', ''bx'',
      ''by'', ''bz'', ''ca'', ''cb'', ''cc'', ''cd'', ''ce'', ''cf'', ''cg'', ''ch'',
      ''ci'', ''cj'', ''ck'', ''cl'', ''cm'', ''cn'', ''co'', ''cp'', ''cq'', ''cr'',
      ''cs'', ''ct'', ''cu'', ''cv'', ''cw'', ''cx'', ''cy'', ''cz'', ''da'', ''db'',
      ''dc'', ''dd'', ''de'', ''df'', ''dg'', ''dh'', ''di'', ''dj'', ''dk'', ''dl'',
      ''dm'', ''dn'', ''do'', ''dp'', ''dq'', ''dr'', ''ds'', ''dt'', ''du'', ''dv'']"
  unfolding sample_text_def py_split_def by (simp add: is_space_def)



text \<open>
  C7 (segmenter rejects invalid input).  \<^verbatim>\<open>split_text\<close> raises when the text is not a string,
  when the segment length is not a positive integer, or when the overlap is not a float
  or is below 0 or above 1; in particular for a segment length of 0 and for a segment
  length of 5 with overlap 1.5.
\<close>

theorem split_text_rejects_invalid:
  assumes "\<not> isinstance_str text
           \<or> \<not> (isinstance_int segment_length \<and> 0 < int_value segment_length)
           \<or> \<not> isinstance_float overlap_percent
           \<or> float_lt_int (float_value overlap_percent) 0
           \<or> float_gt_int (float_value overlap_percent) 1"
  shows "\<exists>e. split_text text segment_length overlap_percent = Inl e \<and> InvalidArgument e"
  using assms by (auto simp add: split_text_def)

theorem split_text_rejects_invalid_witness:
  "(\<exists>e. split_text (PyStr ''a b c'') (PyInt 0) (PyFloat (Finite (1 / 2))) = Inl e
        \<and> InvalidArgument e)
   \<and> (\<exists>e. split_text (PyStr ''a b c'') (PyInt 5) (PyFloat (Finite (3 / 2))) = Inl e
        \<and> InvalidArgument e)
   \<and> (\<exists>e. split_text (PyInt 7) (PyInt 5) (PyFloat (Finite (1 / 2))) = Inl e
        \<and> InvalidArgument e)"
  using split_text_rejects_invalid [of "PyStr ''a b c''" "PyInt 0" "PyFloat (Finite (1 / 2))"]
    split_text_rejects_invalid [of "PyStr ''a b c''" "PyInt 5" "PyFloat (Finite (3 / 2))"]
    split_text_rejects_invalid [of "PyInt 7" "PyInt 5" "PyFloat (Finite (1 / 2))"]
  by simp

text \<open>
  C8 (zero stride).  When the arguments pass validation and the stride
  \<^verbatim>\<open>int(segment_length * (1 - overlap_percent))\<close> is 0, \<^verbatim>\<open>range\<close> raises \<^verbatim>\<open>ValueError\<close>: the call
  fails, it neither loops nor returns segments.
\<close>

theorem split_text_zero_stride_fails:
  assumes "isinstance_str text"
    and "isinstance_int segment_length" and "0 < int_value segment_length"
    and "isinstance_float overlap_percent"
    and "\<not> float_lt_int (float_value overlap_percent) 0"
    and "\<not> float_gt_int (float_value overlap_percent) 1"
    and "skip_of (int_value segment_length) (float_value overlap_percent) = Inr 0"
  shows "split_text text segment_length overlap_percent =
           Inl (ValueError ''range() arg 3 must not be zero'')"
  using assms by (simp add: split_text_def py_range0_def)

theorem split_text_zero_stride_fails_witness:
  "skip_of 40 (Finite 1) = Inr 0
   \<and> split_text (PyStr ''a b c'') (PyInt 40) (PyFloat (Finite 1)) =
       Inl (ValueError ''range() arg 3 must not be zero'')"
  using split_text_zero_stride_fails [of "PyStr ''a b c''" "PyInt 40" "PyFloat (Finite 1)"]
  by (simp add: skip_of_40_one)

text \<open>
  C10 (integer overlap).  The overlap must be an instance of \<^verbatim>\<open>float\<close>: for a string and a
  positive segment length, the integers 0 and 1 are rejected with \<^verbatim>\<open>ValueError\<close> although they
  lie in the documented range.
\<close>

theorem split_text_int_overlap_rejected:
  assumes "isinstance_str text"
    and "isinstance_int segment_length" and "0 < int_value segment_length"
  shows "split_text text segment_length (PyInt 0) =
           Inl (ValueError ''overlap_percent must be a float between 0 and 1'')
         \<and> split_text text segment_length (PyInt 1) =
           Inl (ValueError ''overlap_percent must be a float between 0 and 1'')"
  using assms by (simp add: split_text_def)

theorem split_text_int_overlap_rejected_witness:
  "split_text (PyStr ''a b c'') (PyInt 40) (PyInt 0) =
     Inl (ValueError ''overlap_percent must be a float between 0 and 1'')
   \<and> split_text (PyStr ''a b c'') (PyInt 40) (PyInt 1) =
     Inl (ValueError ''overlap_percent must be a float between 0 and 1'')"
  using split_text_int_overlap_rejected [of "PyStr ''a b c''" "PyInt 40"]
  by simp


section \<open>Properties of the lowpass filter\<close>

lemma zero_rows_from_nth:
  assumes "j < length rows"
  shows "zero_rows_from s rows ! j = (if s \<le> j then map (\<lambda>x. 0) (rows ! j) else rows ! j)"
  using assms by (auto simp add: zero_rows_from_def nth_append min_def)

lemma zero_rows_from_length [simp]: "length (zero_rows_from s rows) = length rows"
  by (simp add: zero_rows_from_def)

lemma assign_zero_axis1_length [simp]: "length (assign_zero_axis1 k a) = length a"
  by (simp add: assign_zero_axis1_def)

lemma assign_zero_axis1_nth:
  assumes "0 \<le> k" "i < length a" "j < length (a ! i)"
  shows "assign_zero_axis1 k a ! i ! j = (if k \<le> int j then map (\<lambda>x. 0) (a ! i ! j) else a ! i ! j)"
  using assms by (auto simp add: assign_zero_axis1_def zero_rows_from_nth slice_start_def)

lemma assign_zero_axis1_all:
  "assign_zero_axis1 0 a = map (map (map (\<lambda>x. 0))) a"
  by (simp add: assign_zero_axis1_def zero_rows_from_def slice_start_def)

lemma lowpass_filter_heap_length:
  "length (snd (lowpass_filter h fft cutoff)) = Suc (length h)"
  by (simp add: lowpass_filter_def Let_def split: sum.split)

lemma lowpass_filter_keeps:
  assumes "p < length h"
  shows "snd (lowpass_filter h fft cutoff) ! p = h ! p"
  using assms by (simp add: lowpass_filter_def Let_def nth_append split: sum.split)

lemma lowpass_filter_result:
  assumes "cutoff_index cutoff (shape1 (h ! fft)) = Inr k"
  shows "lowpass_filter h fft cutoff = (Inr (length h), h @ [assign_zero_axis1 k (h ! fft)])"
  using assms by (simp add: lowpass_filter_def Let_def)

lemma float_of_nat_small:
  assumes "n < 2 ^ 53"
  shows "float_of_int (int n) = Inr (Finite (of_nat n))"
proof (cases "n = 0")
  case True
  then show ?thesis by (simp add: float_of_int_def round_double_0)
next
  case False
  have "int n < int (2 ^ 53)" using assms by (simp only: of_nat_less_iff)
  then have "\<bar>int n\<bar> < 2 ^ 53" by simp
  then have "round_double (of_int (int n) * 2 powi 0) = Finite (of_int (int n) * 2 powi 0)"
    using False by (intro round_double_exact) auto
  then show ?thesis by (simp add: float_of_int_def)
qed

lemma cutoff_index_unit:
  assumes "0 \<le> c" "c \<le> 1" "n < 2 ^ 53"
  shows "\<exists>q. round_double (of_nat n * c) = Finite q \<and> 0 \<le> q
             \<and> cutoff_index (Finite c) n = Inr \<lfloor>q\<rfloor>"
proof -
  have "(of_nat n :: rat) < of_nat (2 ^ 53)" using assms(3) by (simp only: of_nat_less_iff)
  then have n: "(of_nat n :: rat) < 2 ^ 53" by simp
  have "of_nat n * c \<le> of_nat n * 1" using assms by (intro mult_left_mono) auto
  with n have lt: "of_nat n * c < 2 powi 53" by simp
  have ge: "0 \<le> of_nat n * c" using assms by simp
  obtain q where q: "round_double (of_nat n * c) = Finite q" "0 \<le> q"
    using round_double_nonneg[OF ge lt] by auto
  have "cutoff_index (Finite c) n = Inr \<lfloor>q\<rfloor>"
    using q by (simp add: cutoff_index_def int_times_float_def float_of_nat_small[OF assms(3)]
        trunc_rat_def)
  with q show ?thesis by blast
qed


lemma round_double_1: "round_double 1 = Finite 1"
  using round_double_exact[of 1 0] by simp

lemma cutoff_index_half_2: "cutoff_index (Finite (1 / 2)) 2 = Inr 1"
  using float_of_nat_small[of 2]
  by (simp add: cutoff_index_def int_times_float_def round_double_1 trunc_rat_def)

lemma cutoff_index_half_Suc2: "cutoff_index (Finite (1 / 2)) (Suc (Suc 0)) = Inr 1"
  using cutoff_index_half_2 by (simp add: numeral_2_eq_2)

lemma floor_17_half: "\<lfloor>17 / 2 :: rat\<rfloor> = 8"
  by (rule floor_unique) simp_all

lemma cutoff_index_half_17: "cutoff_index (Finite (1 / 2)) 17 = Inr 8"
  using float_of_nat_small[of 17] round_double_exact[of 17 "- 1"]
  by (simp add: cutoff_index_def int_times_float_def trunc_rat_def floor_17_half)

lemma cutoff_index_zero:
  assumes "n < 2 ^ 53"
  shows "cutoff_index (Finite 0) n = Inr 0"
  using float_of_nat_small[OF assms]
  by (simp add: cutoff_index_def int_times_float_def trunc_rat_def round_double_0)




text \<open>
  C9 (the filter does not mutate its argument).  After the call every array that was in
  the heap before it, the argument among them, is what it was; the returned reference is
  a new one.
\<close>

theorem lowpass_filter_non_mutating:
  assumes "fft < length h"
  shows "snd (lowpass_filter h fft cutoff) ! fft = h ! fft
         \<and> (\<forall>p < length h. snd (lowpass_filter h fft cutoff) ! p = h ! p)
         \<and> (\<forall>r. fst (lowpass_filter h fft cutoff) = Inr r \<longrightarrow> r \<noteq> fft \<and> r = length h)"
  using assms
  by (auto simp add: lowpass_filter_keeps) (auto simp add: lowpass_filter_def Let_def split: sum.splits)

theorem lowpass_filter_non_mutating_witness:
  "snd (lowpass_filter [small_spectrum] 0 (Finite (1 / 2))) ! 0 = small_spectrum
   \<and> fst (lowpass_filter [small_spectrum] 0 (Finite (1 / 2))) = Inr 1"
proof -
  have a: "fst (lowpass_filter [small_spectrum] 0 (Finite (1 / 2))) = Inr 1"
    by (simp add: lowpass_filter_def Let_def shape1_def cutoff_index_half_Suc2 small_spectrum_def)
  show ?thesis
    using lowpass_filter_non_mutating [of 0 "[small_spectrum]" "Finite (1 / 2)"]
    by (simp add: a)
qed

section \<open>Properties of the discrete Fourier transform\<close>

lemma cis_unit_sum:
  fixes d :: int and n :: nat
  assumes n: "0 < n" and d: "\<bar>d\<bar> < int n"
  shows "(\<Sum>k<n. cis (2 * pi * of_int d * real k / real n)) = (if d = 0 then of_nat n else 0)"
proof (cases "d = 0")
  case True
  then show ?thesis by simp
next
  case False
  define z where "z = cis (2 * pi * of_int d / real n)"
  have tm: "cis (2 * pi * of_int d * real k / real n) = z ^ k" for k
    unfolding z_def DeMoivre by (simp add: mult_ac)
  have zn: "z ^ n = 1"
  proof -
    have "z ^ n = cis (2 * pi * of_int d)" unfolding z_def DeMoivre using n by simp
    then show ?thesis by simp
  qed
  have z1: "z \<noteq> 1"
  proof
    assume "z = 1"
    then have "cos (2 * pi * of_int d / real n) = 1"
      unfolding z_def by (metis cis.simps(1) one_complex.simps(1))
    then obtain i :: int where i: "2 * pi * of_int d / real n = of_int i * 2 * pi"
      using cos_one_2pi_int by blast
    moreover have "2 * pi * of_int d / real n = (2 * pi) * (of_int d / real n)" by simp
    moreover have "of_int i * 2 * pi = (2 * pi) * of_int i" by simp
    ultimately have "(2 * pi) * (of_int d / real n) = (2 * pi) * of_int i" by (simp only:)
    moreover have "2 * pi \<noteq> 0" by simp
    ultimately have "of_int d / real n = of_int i" using mult_left_cancel by blast
    then have "real_of_int d = of_int i * real n" using n by (simp add: field_simps)
    then have "real_of_int d = real_of_int (i * int n)" by simp
    then have "d = i * int n" by (simp only: of_int_eq_iff)
    then have ad: "\<bar>d\<bar> = int n * \<bar>i\<bar>" by (simp add: abs_mult)
    have "i \<noteq> 0" using \<open>d = i * int n\<close> False by auto
    then have "1 \<le> \<bar>i\<bar>" by simp
    then have "int n * 1 \<le> int n * \<bar>i\<bar>" by (intro mult_left_mono) auto
    with ad d show False by simp
  qed
  have "(\<Sum>k<n. z ^ k) = (z ^ n - 1) / (z - 1)" using z1 by (rule geometric_sum)
  then show ?thesis using False zn by (simp add: tm)
qed


lemma cos_shift_int: "cos (2 * pi * of_int d - y) = cos y"
  by (simp add: cos_diff cos_int_2pin sin_int_2pin)

lemma cos_unit_sum:
  fixes d :: int and h :: nat
  assumes h: "0 < h" and d: "\<bar>d\<bar> < 2 * int h"
  shows "1 + (\<Sum>k = 1..<h. 2 * cos (2 * pi * of_int d * real k / real (2 * h)))
           + cos (pi * of_int d) = (if d = 0 then real (2 * h) else 0)"
proof -
  define f where "f k = cos (2 * pi * of_int d * real k / real (2 * h))" for k
  have "Re (\<Sum>k<2 * h. cis (2 * pi * of_int d * real k / real (2 * h)))
          = Re (if d = 0 then of_nat (2 * h) else 0)"
    using cis_unit_sum[of "2 * h" d] h d by simp
  then have A: "(\<Sum>k<2 * h. f k) = (if d = 0 then real (2 * h) else 0)"
    by (simp add: f_def split: if_splits)
  have f0: "f 0 = 1" by (simp add: f_def)
  have fh: "f h = cos (pi * of_int d)" using h by (simp add: f_def)
  have sym: "f (2 * h - a) = f a" if "a \<le> 2 * h" for a
  proof -
    have "2 * pi * of_int d * real (2 * h - a) / real (2 * h)
            = 2 * pi * of_int d - 2 * pi * of_int d * real a / real (2 * h)"
      using that h by (simp add: of_nat_diff field_simps)
    then show ?thesis by (simp only: f_def cos_shift_int)
  qed
  have refl: "(\<Sum>k = Suc h..<2 * h. f k) = (\<Sum>k = 1..<h. f k)"
    by (rule sum.reindex_bij_witness[of _ "\<lambda>k. 2 * h - k" "\<lambda>k. 2 * h - k"])
      (auto simp add: sym)
  have "(\<Sum>k<2 * h. f k) = (\<Sum>k = 0..<h. f k) + (\<Sum>k = h..<2 * h. f k)"
    by (simp add: lessThan_atLeast0 sum.atLeastLessThan_concat)
  also have "(\<Sum>k = 0..<h. f k) = f 0 + (\<Sum>k = 1..<h. f k)"
    using h by (simp add: sum.atLeast_Suc_lessThan)
  also have "(\<Sum>k = h..<2 * h. f k) = f h + (\<Sum>k = Suc h..<2 * h. f k)"
    using h by (simp add: sum.atLeast_Suc_lessThan)
  finally have "(\<Sum>k<2 * h. f k) = 1 + 2 * (\<Sum>k = 1..<h. f k) + cos (pi * of_int d)"
    by (simp add: refl f0 fh)
  with A show ?thesis by (simp add: f_def sum_distrib_left)
qed


lemma sum_list_upt_sum: "sum_list (map f [a..<b]) = sum f {a..<b}"
  by (simp add: interv_sum_list_conv_sum_set_nat)

lemma rfft_length [simp]: "length (rfft v) = length v div 2 + 1"
  by (simp add: rfft_def)

lemma rfft_nth: "k \<le> length v div 2 \<Longrightarrow> rfft v ! k = rfft_bin v k"
  unfolding rfft_def by (subst nth_map_upt) simp_all

lemma Re_rfft_bin_cis:
  assumes "length v = 2 * h"
  shows "Re (rfft_bin v k * cis (2 * pi * real k * real m / real (2 * h)))
           = (\<Sum>j = 0..<2 * h. v ! j * cos (2 * pi * of_int (int m - int j) * real k / real (2 * h)))"
proof -
  have t: "Re (of_real a * cis (- x) * cis y) = a * cos (y - x)" for a x y
    by (simp add: mult.assoc cis_mult)
  have ang: "2 * pi * real k * real m / real (2 * h) - 2 * pi * real k * real j / real (2 * h)
               = 2 * pi * of_int (int m - int j) * real k / real (2 * h)" for j
  proof -
    have "2 * pi * real k * real m - 2 * pi * real k * real j
            = 2 * pi * of_int (int m - int j) * real k"
      by (simp add: algebra_simps)
    then show ?thesis by (simp only: diff_divide_distrib [symmetric])
  qed
  show ?thesis
    unfolding rfft_bin_def assms sum_list_upt_sum sum_distrib_right Re_sum t ang ..
qed

lemma irfft_rfft_sample:
  assumes v: "length v = 2 * h" and h: "0 < h" and m: "m < 2 * h"
  shows "irfft_sample (rfft v) (2 * h) m = v ! m"
proof -
  define c where "c k j = cos (2 * pi * of_int (int m - int j) * real k / real (2 * h))" for k j
  have R: "Re (rfft_bin v k * cis (2 * pi * real k * real m / real (2 * h)))
             = (\<Sum>j = 0..<2 * h. v ! j * c k j)" for k
    unfolding c_def by (rule Re_rfft_bin_cis[OF v])
  have r0: "Re (rfft v ! 0) = (\<Sum>j = 0..<2 * h. v ! j)"
    using R[of 0] by (simp add: rfft_nth c_def)
  have rh: "Re (rfft v ! h) * cos (pi * real m) = (\<Sum>j = 0..<2 * h. v ! j * cos (pi * of_int (int m - int j)))"
  proof -
    have "cis (2 * pi * real h * real m / real (2 * h)) = cis (pi * real m)" using h by simp
    moreover have "Re (z * cis (pi * real m)) = Re z * cos (pi * real m)" for z
      by (simp add: mult.commute[of pi])
    ultimately have "Re (rfft_bin v h) * cos (pi * real m) = (\<Sum>j = 0..<2 * h. v ! j * c h j)"
      using R[of h] by simp
    moreover have "c h j = cos (pi * of_int (int m - int j))" for j
      using h by (simp add: c_def)
    ultimately show ?thesis using v by (simp add: rfft_nth)
  qed
  have mid: "sum_list (map (\<lambda>k. 2 * Re (rfft v ! k * cis (2 * pi * real k * real m / real (2 * h)))) [1..<h])
               = (\<Sum>j = 0..<2 * h. v ! j * (\<Sum>k = 1..<h. 2 * c k j))"
  proof -
    have "sum_list (map (\<lambda>k. 2 * Re (rfft v ! k * cis (2 * pi * real k * real m / real (2 * h)))) [1..<h])
            = (\<Sum>k = 1..<h. 2 * (\<Sum>j = 0..<2 * h. v ! j * c k j))"
      unfolding sum_list_upt_sum
    proof (rule sum.cong)
      fix k assume "k \<in> {1..<h}"
      then have "k \<le> length v div 2" using v by simp
      then have "rfft v ! k = rfft_bin v k" by (rule rfft_nth)
      then show "2 * Re (rfft v ! k * cis (2 * pi * real k * real m / real (2 * h)))
                   = 2 * (\<Sum>j = 0..<2 * h. v ! j * c k j)"
        by (simp only: R)
    qed simp
    also have "\<dots> = (\<Sum>k = 1..<h. \<Sum>j = 0..<2 * h. v ! j * (2 * c k j))"
      by (simp add: sum_distrib_left mult_ac)
    also have "\<dots> = (\<Sum>j = 0..<2 * h. \<Sum>k = 1..<h. v ! j * (2 * c k j))"
      by (rule sum.swap)
    finally show ?thesis by (simp add: sum_distrib_left)
  qed
  have D: "1 + (\<Sum>k = 1..<h. 2 * c k j) + cos (pi * of_int (int m - int j))
             = (if j = m then real (2 * h) else 0)" if "j < 2 * h" for j
  proof -
    have "\<bar>int m - int j\<bar> < 2 * int h" using that m by auto
    from cos_unit_sum[OF h this] show ?thesis by (auto simp add: c_def)
  qed
  have hh: "2 * h div 2 = h" by simp
  have e: "irfft_sample (rfft v) (2 * h) m
          = ((\<Sum>j = 0..<2 * h. v ! j)
            + (\<Sum>j = 0..<2 * h. v ! j * (\<Sum>k = 1..<h. 2 * c k j))
            + (\<Sum>j = 0..<2 * h. v ! j * cos (pi * of_int (int m - int j)))) / real (2 * h)"
    unfolding irfft_sample_def hh r0 mid rh ..
  have "real (2 * h) * irfft_sample (rfft v) (2 * h) m
          = (\<Sum>j = 0..<2 * h. v ! j)
            + (\<Sum>j = 0..<2 * h. v ! j * (\<Sum>k = 1..<h. 2 * c k j))
            + (\<Sum>j = 0..<2 * h. v ! j * cos (pi * of_int (int m - int j)))"
    unfolding e using h by simp
  also have "\<dots> = (\<Sum>j = 0..<2 * h. v ! j * (1 + (\<Sum>k = 1..<h. 2 * c k j)
                                                + cos (pi * of_int (int m - int j))))"
    by (simp add: sum.distrib distrib_left)
  also have "\<dots> = (\<Sum>j = 0..<2 * h. v ! j * (if j = m then real (2 * h) else 0))"
  proof (rule sum.cong)
    fix j assume "j \<in> {0..<2 * h}"
    then have "j < 2 * h" by simp
    then show "v ! j * (1 + (\<Sum>k = 1..<h. 2 * c k j) + cos (pi * of_int (int m - int j)))
                 = v ! j * (if j = m then real (2 * h) else 0)"
      by (simp only: D)
  qed simp
  also have "\<dots> = real (2 * h) * v ! m"
    using m by (simp add: sum.delta if_distrib[of "\<lambda>x. _ * x"] cong: if_cong)
  finally show ?thesis using h by simp
qed

lemma irfft_rfft:
  assumes "length v = 2 * h" and "0 < h"
  shows "irfft (rfft v) (2 * h) = v"
  using assms by (intro nth_equalityI) (simp_all add: irfft_def irfft_rfft_sample)


section \<open>Properties of the short-time transform\<close>

lemma hop_length_1 [simp]: "hop_length = 1"
  by (simp add: hop_length_def win_length_def)

lemma hann_win_length: "hann win_length = [0, 1 / 2, 1, 1 / 2]"
proof -
  have "pi * 3 / 2 = 3 / 2 * pi" by simp
  then have "cos (pi * 3 / 2) = 0" by (simp only: cos_3over2_pi)
  then show ?thesis by (simp add: hann_def win_length_def upt_rec)
qed

lemma fft_window_32: "fft_window 32 = replicate 14 0 @ [0, 1 / 2, 1, 1 / 2] @ replicate 14 0"
  by (simp add: fft_window_def pad_center_def hann_win_length)

lemma fft_window_32_length [simp]: "length (fft_window 32) = 32"
  by (simp add: fft_window_32)

lemma fft_window_32_centre: "fft_window 32 ! 16 = 1"
  by (simp add: fft_window_32 nth_append)

lemma pad_signal_length [simp]: "length (pad_signal y) = length y + 32"
  by (simp add: pad_signal_def n_fft_def)

lemma pad_signal_nth: "j < length y \<Longrightarrow> pad_signal y ! (j + 16) = y ! j"
  by (simp add: pad_signal_def n_fft_def nth_append)

lemma n_frames_of_eq [simp]: "n_frames_of y = Suc (length y)"
  by (simp add: n_frames_of_def n_fft_def)

lemma upt_17: "[0..<17] = 0 # [1..<17]"
  by (simp add: upt_rec)

lemma windowed_frame_length:
  "t \<le> length y \<Longrightarrow> length (windowed_frame y t) = 32"
  by (simp add: windowed_frame_def n_fft_def)

lemma windowed_frame_nth:
  assumes "t \<le> length y" "m < 32"
  shows "windowed_frame y t ! m = fft_window 32 ! m * pad_signal y ! (t + m)"
  using assms by (simp add: windowed_frame_def n_fft_def)

lemma stft_1d_length [simp]: "length (stft_1d y) = 17"
  by (simp add: stft_1d_def n_fft_def)

lemma stft_1d_frames: "length (hd (stft_1d y)) = Suc (length y)"
  by (simp add: stft_1d_def n_fft_def upt_17)

lemma column_stft_1d:
  assumes "t \<le> length y"
  shows "column (stft_1d y) t = rfft (windowed_frame y t)"
  using assms
  by (intro nth_equalityI)
    (simp_all add: column_def stft_1d_def rfft_def n_fft_def windowed_frame_length
      del: upt_Suc)

lemma istft_frame_stft_1d:
  assumes "t \<le> length y"
  shows "istft_frame (stft_1d y) 32 t = map2 (*) (fft_window 32) (windowed_frame y t)"
proof -
  have "irfft (rfft (windowed_frame y t)) (2 * 16) = windowed_frame y t"
    by (rule irfft_rfft) (simp_all add: windowed_frame_length[OF assms])
  then show ?thesis by (simp add: istft_frame_def column_stft_1d[OF assms])
qed

lemma istft_frame_stft_1d_nth:
  assumes "t \<le> length y" "m < 32"
  shows "istft_frame (stft_1d y) 32 t ! m = pad_signal y ! (t + m) * (fft_window 32 ! m)\<^sup>2"
  using assms
  by (simp add: istft_frame_stft_1d windowed_frame_length windowed_frame_nth power2_eq_square)

lemma overlap_add_stft_1d:
  "overlap_add (stft_1d y) 32 (Suc (length y)) p
     = pad_signal y ! p * window_sumsquare 32 (Suc (length y)) p"
proof -
  have "map (\<lambda>t. if t * hop_length \<le> p \<and> p < t * hop_length + 32
                   then istft_frame (stft_1d y) 32 t ! (p - t * hop_length) else 0)
            [0..<Suc (length y)]
        = map (\<lambda>t. pad_signal y ! p *
                     (if t * hop_length \<le> p \<and> p < t * hop_length + 32
                      then (fft_window 32 ! (p - t * hop_length))\<^sup>2 else 0))
            [0..<Suc (length y)]"
    by (rule map_cong) (auto simp add: istft_frame_stft_1d_nth)
  then show ?thesis
    unfolding overlap_add_def window_sumsquare_def by (simp only: sum_list_const_mult)
qed

lemma window_sumsquare_ge_1:
  assumes "j \<le> length y"
  shows "1 \<le> window_sumsquare 32 (Suc (length y)) (j + 16)"
proof -
  let ?f = "\<lambda>t. if t * hop_length \<le> j + 16 \<and> j + 16 < t * hop_length + 32
                 then (fft_window 32 ! (j + 16 - t * hop_length))\<^sup>2 else 0"
  have "?f j \<le> sum ?f {0..<Suc (length y)}"
    by (rule member_le_sum) (use assms in auto)
  moreover have "?f j = 1" by (simp add: fft_window_32_centre)
  ultimately show ?thesis by (simp add: window_sumsquare_def sum_list_upt_sum)
qed

lemma tiny_lt_1: "tiny < 1"
  by (simp add: tiny_def)

lemma istft_stft_1d: "istft_1d (stft_1d y) = y"
proof (rule nth_equalityI)
  show l: "length (istft_1d (stft_1d y)) = length y"
    by (simp add: istft_1d_def stft_1d_frames)
  fix j assume "j < length (istft_1d (stft_1d y))"
  then have j: "j < length y" using l by simp
  have w: "tiny < window_sumsquare 32 (Suc (length y)) (j + 16)"
    using window_sumsquare_ge_1[of j y] j tiny_lt_1 by simp
  then have w0: "window_sumsquare 32 (Suc (length y)) (j + 16) \<noteq> 0"
    using tiny_def by (smt (verit) zero_less_divide_1_iff zero_less_numeral zero_less_power)
  show "istft_1d (stft_1d y) ! j = y ! j"
    using j w w0
    by (simp add: istft_1d_def Let_def stft_1d_frames overlap_add_stft_1d pad_signal_nth)
qed


lemma shape1_get_fft: "embedding \<noteq> [] \<Longrightarrow> shape1 (get_fft embedding) = 17"
  by (cases embedding) (simp_all add: shape1_def get_fft_def)

lemma shape2_get_fft: "embedding \<noteq> [] \<Longrightarrow> shape2 (get_fft embedding) = Suc (length (hd embedding))"
proof (cases embedding)
  case Nil
  assume "embedding \<noteq> []" with Nil show ?thesis by simp
next
  case (Cons y ys)
  have "stft_1d y = hd (stft_1d y) # tl (stft_1d y)"
    using stft_1d_length[of y] by (cases "stft_1d y") simp_all
  then have "(case stft_1d y of [] \<Rightarrow> 0 | r # rs \<Rightarrow> length r) = length (hd (stft_1d y))"
    by (metis list.simps(5))
  then show ?thesis using Cons by (simp add: shape2_def get_fft_def stft_1d_frames)
qed

lemma fft_to_embedding_get_fft:
  assumes "embedding \<noteq> []"
  shows "fft_to_embedding (get_fft embedding) = Inr embedding"
proof -
  have "map istft_1d (get_fft embedding) = embedding"
    by (simp add: get_fft_def comp_def istft_stft_1d)
  then show ?thesis
    using assms
    by (simp add: fft_to_embedding_def shape1_get_fft shape2_get_fft win_length_def)
qed

lemma mean_axis0_replicate:
  assumes "0 < n"
  shows "mean_axis0 (replicate n v) = v"
  using assms
  by (intro nth_equalityI) (simp_all add: mean_axis0_def sum_list_replicate hd_replicate)

lemma aggregate_no_filter:
  assumes "0 < n"
  shows "aggregate (replicate n v) cutoff False = Inr v"
  using assms by (simp add: aggregate_def fft_to_embedding_get_fft mean_axis0_replicate)


lemma sum_list_zeros: "sum_list (map (\<lambda>x. 0) xs) = (0 :: real)"
  by (induction xs) simp_all

lemma irfft_sample_zero:
  assumes "\<forall>k \<le> n div 2. c ! k = 0"
  shows "irfft_sample c n m = 0"
proof -
  have "map (\<lambda>k. 2 * Re (c ! k * cis (2 * pi * real k * real m / real n))) [1..<n div 2]
          = map (\<lambda>k. 0) [1..<n div 2]"
    by (rule map_cong) (use assms in auto)
  then have s: "sum_list (map (\<lambda>k. 2 * Re (c ! k * cis (2 * pi * real k * real m / real n)))
                  [1..<n div 2]) = 0"
    by (simp only: sum_list_zeros)
  have c0: "c ! 0 = 0" "c ! (n div 2) = 0" using assms by auto
  show ?thesis unfolding irfft_sample_def s c0 by simp
qed

lemma column_zeroed_stft_1d:
  assumes "t \<le> length y" "k < 17"
  shows "column (map (map (\<lambda>x. 0)) (stft_1d y)) t ! k = 0"
  using assms by (simp add: column_def stft_1d_def n_fft_def del: upt_Suc)

lemma istft_frame_zero:
  assumes "t \<le> length y" "m < 32"
  shows "istft_frame (map (map (\<lambda>x. 0)) (stft_1d y)) 32 t ! m = 0"
proof -
  have "irfft_sample (column (map (map (\<lambda>x. 0)) (stft_1d y)) t) 32 m = 0"
    by (rule irfft_sample_zero) (use assms column_zeroed_stft_1d in auto)
  then show ?thesis using assms by (simp add: istft_frame_def irfft_def)
qed

lemma overlap_add_zero:
  "overlap_add (map (map (\<lambda>x. 0)) (stft_1d y)) 32 (Suc (length y)) p = 0"
proof -
  have "map (\<lambda>t. if t * hop_length \<le> p \<and> p < t * hop_length + 32
                   then istft_frame (map (map (\<lambda>x. 0)) (stft_1d y)) 32 t ! (p - t * hop_length)
                   else 0) [0..<Suc (length y)]
        = map (\<lambda>t. 0) [0..<Suc (length y)]"
    by (rule map_cong) (auto simp add: istft_frame_zero)
  then show ?thesis unfolding overlap_add_def by (simp only: sum_list_zeros)
qed

lemma istft_1d_zero:
  "istft_1d (map (map (\<lambda>x. 0)) (stft_1d y)) = replicate (length y) 0"
proof -
  have f: "length (hd (map (map (\<lambda>x. 0)) (stft_1d y))) = Suc (length y)"
    by (simp add: stft_1d_def n_fft_def upt_17)
  show ?thesis
    by (intro nth_equalityI) (simp_all add: istft_1d_def Let_def f overlap_add_zero)
qed

lemma lowpass_filtered_zero:
  assumes "shape1 a < 2 ^ 53"
  shows "lowpass_filtered a (Finite 0) = Inr (map (map (map (\<lambda>x. 0))) a)"
  using cutoff_index_zero[OF assms]
  by (simp add: lowpass_filtered_def lowpass_filter_def Let_def assign_zero_axis1_all)

lemma fft_to_embedding_zero:
  assumes "embedding \<noteq> []"
  shows "fft_to_embedding (map (map (map (\<lambda>x. 0))) (get_fft embedding))
           = Inr (map (\<lambda>row. replicate (length row) 0) embedding)"
proof -
  have s1: "shape1 (map (map (map (\<lambda>x. 0))) (get_fft embedding)) = 17"
    using assms by (cases embedding) (simp_all add: shape1_def get_fft_def)
  have s2: "shape2 (map (map (map (\<lambda>x. 0))) (get_fft embedding)) \<noteq> 0"
    using assms by (cases embedding) (simp_all add: shape2_def get_fft_def stft_1d_def n_fft_def upt_17)
  show ?thesis
    unfolding fft_to_embedding_def s1
    using s2 by (simp add: win_length_def get_fft_def comp_def istft_1d_zero)
qed


lemma lowpass_filtered_get_fft_half:
  assumes "embedding \<noteq> []"
  shows "lowpass_filtered (get_fft embedding) (Finite (1 / 2))
           = Inr (assign_zero_axis1 8 (get_fft embedding))"
  by (simp add: lowpass_filtered_def lowpass_filter_def Let_def shape1_get_fft[OF assms]
      cutoff_index_half_17)

lemma Re_rfft_bin_0:
  assumes "length v = 2 * h"
  shows "Re (rfft_bin v 0) = (\<Sum>j = 0..<2 * h. v ! j)"
  using Re_rfft_bin_cis[OF assms, of 0 0] by simp

text \<open>The inverse of a column whose bins from 8 on have been zeroed.\<close>

lemma irfft_sample_lowpassed:
  assumes v: "length v = 32" and m: "m < 32"
  shows "irfft_sample (map (\<lambda>k. if k < 8 then rfft_bin v k else 0) [0..<17]) 32 m
           = (\<Sum>j = 0..<32. v ! j *
                (1 + (\<Sum>k = 1..<8. 2 * cos (2 * pi * of_int (int m - int j) * real k / 32)))) / 32"
proof -
  let ?c = "map (\<lambda>k. if k < 8 then rfft_bin v k else 0) [0..<17]"
  have v2: "length v = 2 * 16" using v by simp
  have c0: "Re (?c ! 0) = (\<Sum>j = 0..<32. v ! j)"
    using Re_rfft_bin_0[OF v2] by (simp add: upt_17)
  have c16: "?c ! (32 div 2) = 0" by simp
  have R: "Re (rfft_bin v k * cis (2 * pi * real k * real m / real 32))
             = (\<Sum>j = 0..<32. v ! j * cos (2 * pi * of_int (int m - int j) * real k / 32))" for k
    using Re_rfft_bin_cis[OF v2, of k m] by simp
  have "sum_list (map (\<lambda>k. 2 * Re (?c ! k * cis (2 * pi * real k * real m / real 32))) [1..<32 div 2])
          = (\<Sum>k = 1..<16. 2 * Re (?c ! k * cis (2 * pi * real k * real m / real 32)))"
    by (simp add: sum_list_upt_sum)
  also have "\<dots> = (\<Sum>k = 1..<8. 2 * Re (?c ! k * cis (2 * pi * real k * real m / real 32)))
                    + (\<Sum>k = 8..<16. 2 * Re (?c ! k * cis (2 * pi * real k * real m / real 32)))"
    by (rule sum.atLeastLessThan_concat [symmetric]) simp_all
  also have "(\<Sum>k = 8..<16. 2 * Re (?c ! k * cis (2 * pi * real k * real m / real 32))) = 0"
    by (rule sum.neutral) simp
  also have "(\<Sum>k = 1..<8. 2 * Re (?c ! k * cis (2 * pi * real k * real m / real 32)))
               = (\<Sum>k = 1..<8. 2 * (\<Sum>j = 0..<32. v ! j * cos (2 * pi * of_int (int m - int j) * real k / 32)))"
  proof (rule sum.cong)
    fix k :: nat assume "k \<in> {1..<8}"
    then have "?c ! k = rfft_bin v k" by simp
    then show "2 * Re (?c ! k * cis (2 * pi * real k * real m / real 32))
                 = 2 * (\<Sum>j = 0..<32. v ! j * cos (2 * pi * of_int (int m - int j) * real k / 32))"
      by (simp only: R)
  qed simp
  also have "\<dots> = (\<Sum>k = 1..<8. \<Sum>j = 0..<32. v ! j * (2 * cos (2 * pi * of_int (int m - int j) * real k / 32)))"
    by (simp add: sum_distrib_left mult_ac)
  also have "\<dots> = (\<Sum>j = 0..<32. \<Sum>k = 1..<8. v ! j * (2 * cos (2 * pi * of_int (int m - int j) * real k / 32)))"
    by (rule sum.swap)
  finally have mid: "sum_list (map (\<lambda>k. 2 * Re (?c ! k * cis (2 * pi * real k * real m / real 32))) [1..<32 div 2])
     = (\<Sum>j = 0..<32. v ! j * (\<Sum>k = 1..<8. 2 * cos (2 * pi * of_int (int m - int j) * real k / 32)))"
    by (simp add: sum_distrib_left)
  show ?thesis
    unfolding irfft_sample_def c0 c16 mid
    by (simp add: sum.distrib distrib_left)
qed


lemma pad_signal_unit: "q < 33 \<Longrightarrow> pad_signal [1] ! q = (if q = 16 then 1 else 0)"
  by (auto simp add: pad_signal_def n_fft_def nth_append nth_Cons')

lemma fft_window_32_15: "fft_window 32 ! 15 = 1 / 2"
  by (simp add: fft_window_32 nth_append)

lemma windowed_frame_unit_0:
  "j < 32 \<Longrightarrow> windowed_frame [1] 0 ! j = (if j = 16 then 1 else 0)"
  using windowed_frame_nth[of 0 "[1]" j] by (simp add: pad_signal_unit fft_window_32_centre)

lemma windowed_frame_unit_1:
  "j < 32 \<Longrightarrow> windowed_frame [1] (Suc 0) ! j = (if j = 15 then 1 / 2 else 0)"
  using windowed_frame_nth[of "Suc 0" "[1]" j] by (simp add: pad_signal_unit fft_window_32_15)

lemma lowpass_kernel_centre:
  "1 + (\<Sum>k = 1..<8. 2 * cos (2 * pi * of_int (int m - int m) * real k / 32)) = (15 :: real)"
  by simp

lemma irfft_lowpassed_unit_0:
  "irfft_sample (map (\<lambda>k. if k < 8 then rfft_bin (windowed_frame [1] 0) k else 0) [0..<17]) 32 16
     = 15 / 32"
proof -
  have l: "length (windowed_frame [1] 0) = 32" by (simp add: windowed_frame_length)
  have "(\<Sum>j = 0..<32. windowed_frame [1] 0 ! j *
           (1 + (\<Sum>k = 1..<8. 2 * cos (2 * pi * of_int (int 16 - int j) * real k / 32))))
        = (\<Sum>j = 0..<32 :: nat. if j = 16 then 15 else (0 :: real))"
    by (rule sum.cong) (simp_all add: windowed_frame_unit_0)
  also have "\<dots> = 15" by (simp add: sum.delta)
  finally show ?thesis using irfft_sample_lowpassed[OF l, of 16] by simp
qed

lemma irfft_lowpassed_unit_1:
  "irfft_sample (map (\<lambda>k. if k < 8 then rfft_bin (windowed_frame [1] (Suc 0)) k else 0) [0..<17]) 32 15
     = 15 / 64"
proof -
  have l: "length (windowed_frame [1] (Suc 0)) = 32" by (simp add: windowed_frame_length)
  have "(\<Sum>j = 0..<32. windowed_frame [1] (Suc 0) ! j *
           (1 + (\<Sum>k = 1..<8. 2 * cos (2 * pi * of_int (int 15 - int j) * real k / 32))))
        = (\<Sum>j = 0..<32 :: nat. if j = 15 then 15 / 2 else (0 :: real))"
    by (rule sum.cong) (simp_all add: windowed_frame_unit_1)
  also have "\<dots> = 15 / 2" by (simp add: sum.delta)
  finally show ?thesis using irfft_sample_lowpassed[OF l, of 15] by simp
qed

lemma column_lowpassed_stft_1d:
  assumes "t \<le> length y"
  shows "column (zero_rows_from 8 (stft_1d y)) t
           = map (\<lambda>k. if k < 8 then rfft_bin (windowed_frame y t) k else 0) [0..<17]"
proof (rule nth_equalityI)
  show "length (column (zero_rows_from 8 (stft_1d y)) t)
          = length (map (\<lambda>k. if k < 8 then rfft_bin (windowed_frame y t) k else 0) [0..<17])"
    by (simp add: column_def)
  fix k assume "k < length (column (zero_rows_from 8 (stft_1d y)) t)"
  then have k: "k < 17" by (simp add: column_def)
  then have kl: "k < length (stft_1d y)" by simp
  have row: "stft_1d y ! k = map (\<lambda>t. rfft_bin (windowed_frame y t) k) [0..<Suc (length y)]"
    using k by (simp add: stft_1d_def n_fft_def)
  show "column (zero_rows_from 8 (stft_1d y)) t ! k
          = map (\<lambda>k. if k < 8 then rfft_bin (windowed_frame y t) k else 0) [0..<17] ! k"
    using k assms
    by (simp add: column_def zero_rows_from_nth[OF kl] row del: upt_Suc)
qed

lemma istft_frame_lowpassed_nth:
  assumes "t \<le> length y" "m < 32"
  shows "istft_frame (zero_rows_from 8 (stft_1d y)) 32 t ! m
           = fft_window 32 ! m *
             irfft_sample (map (\<lambda>k. if k < 8 then rfft_bin (windowed_frame y t) k else 0) [0..<17]) 32 m"
  using assms by (simp add: istft_frame_def irfft_def column_lowpassed_stft_1d)

lemma window_sumsquare_unit: "window_sumsquare 32 2 16 = 5 / 4"
  by (simp add: window_sumsquare_def numeral_2_eq_2 fft_window_32_centre fft_window_32_15
      power2_eq_square)

lemma overlap_add_lowpassed_unit:
  "overlap_add (zero_rows_from 8 (stft_1d [1])) 32 2 16 = 75 / 128"
proof -
  have 0: "istft_frame (zero_rows_from 8 (stft_1d [1])) 32 0 ! 16 = 15 / 32"
    by (simp add: istft_frame_lowpassed_nth irfft_lowpassed_unit_0 fft_window_32_centre)
  have 1: "istft_frame (zero_rows_from 8 (stft_1d [1])) 32 (Suc 0) ! 15 = 15 / 128"
    by (simp add: istft_frame_lowpassed_nth irfft_lowpassed_unit_1 fft_window_32_15)
  have u: "[0..<2] = [0, Suc 0]" by (simp add: upt_rec)
  show ?thesis
    by (simp add: overlap_add_def u 0 1)
qed

lemma istft_1d_lowpassed_unit:
  "istft_1d (zero_rows_from 8 (stft_1d [1])) = [15 / 32]"
proof -
  have f: "length (hd (zero_rows_from 8 (stft_1d [1]))) = 2"
    by (simp add: zero_rows_from_def stft_1d_def n_fft_def upt_17)
  have t: "tiny < 5 / 4" using tiny_lt_1 by simp
  show ?thesis
    using t
    by (simp add: istft_1d_def Let_def f window_sumsquare_unit overlap_add_lowpassed_unit)
qed

lemma aggregate_lowpass_unit:
  "aggregate (replicate 1 [1]) (Finite (1 / 2)) True = Inr [15 / 32]"
proof -
  have a: "assign_zero_axis1 8 (get_fft [[1]]) = [zero_rows_from 8 (stft_1d [1])]"
    by (simp add: assign_zero_axis1_def get_fft_def slice_start_def)
  have s1: "shape1 [zero_rows_from 8 (stft_1d [1])] = 17" by (simp add: shape1_def)
  have s2: "shape2 [zero_rows_from 8 (stft_1d [1])] = 2"
    by (simp add: shape2_def zero_rows_from_def stft_1d_def n_fft_def upt_17)
  have f: "fft_to_embedding [zero_rows_from 8 (stft_1d [1])] = Inr [[15 / 32]]"
    unfolding fft_to_embedding_def s1 s2
    by (simp add: win_length_def istft_1d_lowpassed_unit)
  show ?thesis
    by (simp add: aggregate_def lowpass_filtered_get_fft_half a f mean_axis0_def)
qed


lemma get_fft_nth: "i < length embedding \<Longrightarrow> get_fft embedding ! i = stft_1d (embedding ! i)"
  by (simp add: get_fft_def)

lemma stft_1d_dc_first:
  "stft_1d y ! 0 ! 0 = of_real (\<Sum>j = 0..<32. fft_window 32 ! j * pad_signal y ! j)"
proof -
  have v: "length (windowed_frame y 0) = 32" by (simp add: windowed_frame_length)
  have "stft_1d y ! 0 ! 0 = rfft_bin (windowed_frame y 0) 0"
    by (simp add: stft_1d_def n_fft_def del: upt_Suc)
  also have "\<dots> = (\<Sum>j = 0..<32. of_real (windowed_frame y 0 ! j))"
    by (simp add: rfft_bin_def v sum_list_upt_sum)
  also have "\<dots> = (\<Sum>j = 0..<32. of_real (fft_window 32 ! j * pad_signal y ! j))"
    by (rule sum.cong) (simp_all add: windowed_frame_nth)
  finally show ?thesis by (simp only: of_real_sum)
qed

lemma stft_1d_zero_dc: "stft_1d [0, 0] ! 0 ! 0 = 0"
proof -
  have "pad_signal [0, 0] ! j = 0" if "j < 32" for j
    using that by (simp add: pad_signal_def n_fft_def nth_append nth_Cons')
  then have "(\<Sum>j = 0..<32. fft_window 32 ! j * pad_signal [0, 0] ! j) = 0"
    by (intro sum.neutral) simp
  then show ?thesis by (simp only: stft_1d_dc_first of_real_0)
qed

lemma stft_1d_unit_dc: "stft_1d [1, 0] ! 0 ! 0 = 1"
proof -
  have "pad_signal [1, 0] ! j = (if j = 16 then 1 else 0)" if "j < 32" for j
    using that by (auto simp add: pad_signal_def n_fft_def nth_append nth_Cons')
  then have "(\<Sum>j = 0..<32. fft_window 32 ! j * pad_signal [1, 0] ! j)
               = (\<Sum>j = 0..<32 :: nat. if j = 16 then 1 else 0)"
    by (intro sum.cong) (simp_all add: fft_window_32_centre)
  also have "\<dots> = 1" by (simp add: sum.delta)
  finally show ?thesis by (simp only: stft_1d_dc_first of_real_1)
qed

lemma stft_1d_row_length: "k < 17 \<Longrightarrow> length (stft_1d y ! k) = Suc (length y)"
  by (simp add: stft_1d_def n_fft_def del: upt_Suc)


section \<open>The claims about the transform pipeline\<close>

text \<open>
  C1 (axis of the forward transform).  \<^verbatim>\<open>get_fft\<close> hands the \<open>N \<times> D\<close> matrix to
  \<^verbatim>\<open>librosa.stft\<close> as it is, so the transform runs along the last axis: each of the \<open>N\<close>
  chunk vectors is transformed on its own, as a signal over the dimension index.  The
  result has one slice per chunk, slice \<open>i\<close> is the transform of chunk \<open>i\<close> alone, with 17
  frequency bins and \<open>D + 1\<close> frames, and it does not change when other chunks change.
\<close>

theorem get_fft_per_chunk:
  "length (get_fft embedding) = length embedding
   \<and> (\<forall>i < length embedding.
          get_fft embedding ! i = stft_1d (embedding ! i)
          \<and> length (get_fft embedding ! i) = 17
          \<and> (\<forall>k < 17. length (get_fft embedding ! i ! k) = Suc (length (embedding ! i)))
          \<and> (\<forall>other. i < length other \<longrightarrow> other ! i = embedding ! i
                 \<longrightarrow> get_fft other ! i = get_fft embedding ! i))"
  by (simp add: get_fft_def stft_1d_row_length)

theorem get_fft_per_chunk_witness:
  "length (get_fft [[1, 1], [0, 0]]) = 2
   \<and> get_fft [[1, 1], [0, 0]] ! 1 = stft_1d [0, 0]
   \<and> length (get_fft [[1, 1], [0, 0]] ! 1) = 17
   \<and> length (get_fft [[1, 1], [0, 0]] ! 1 ! 0) = 3
   \<and> get_fft [[5, 7], [0, 0]] ! 1 = get_fft [[1, 1], [0, 0]] ! 1"
proof -
  have i: "(1::nat) < length [[1, 1], [0, 0 :: real]]" by simp
  note a = get_fft_per_chunk [of "[[1, 1], [0, 0]]", THEN conjunct1]
  note b = get_fft_per_chunk [of "[[1, 1], [0, 0]]", THEN conjunct2, rule_format, OF i]
  note b1 = b [THEN conjunct1]
  note b2 = b [THEN conjunct2, THEN conjunct1]
  note b3 = b [THEN conjunct2, THEN conjunct2, THEN conjunct1, rule_format, of 0]
  note b4 = b [THEN conjunct2, THEN conjunct2, THEN conjunct2, rule_format, of "[[5, 7], [0, 0]]"]
  have l: "length (get_fft [[1, 1], [0, 0]]) = 2" using a by simp
  have s: "get_fft [[1, 1], [0, 0]] ! 1 = stft_1d [0, 0]" using b1 by simp
  have f: "length (get_fft [[1, 1], [0, 0]] ! 1 ! 0) = 3" using b3 by simp
  have c: "get_fft [[5, 7], [0, 0]] ! 1 = get_fft [[1, 1], [0, 0]] ! 1" by (rule b4) simp_all
  show ?thesis using l s b2 f c by (simp only: simp_thms)
qed

text \<open>
  The transform along the chunk axis is a different function.  On the matrix with rows
  \<open>(1, 1)\<close> and \<open>(0, 0)\<close> slice 1 of the result of \<^verbatim>\<open>get_fft\<close> is the transform of chunk 1,
  which is zero, whereas the transform along the chunk axis of dimension 1, the sequence
  \<open>(1, 0)\<close>, has 1 in bin 0 of frame 0.  On a \<open>1 \<times> 3\<close> matrix the result has one slice with
  \<open>D + 1 = 4\<close> frames, not three slices with \<open>N + 1 = 2\<close> frames.
\<close>

theorem get_fft_chunk_axis_counterexample:
  "get_fft [[1, 1], [0, 0]] \<noteq> stft_along_chunk_axis [[1, 1], [0, 0]]
   \<and> get_fft [[1, 1], [0, 0]] ! 1 ! 0 ! 0 = 0
   \<and> stft_along_chunk_axis [[1, 1], [0, 0]] ! 1 ! 0 ! 0 = 1
   \<and> length (get_fft [[1, 2, 3]]) = 1
   \<and> length (get_fft [[1, 2, 3]] ! 0 ! 0) = 4
   \<and> length (stft_along_chunk_axis [[1, 2, 3]]) = 3
   \<and> length (stft_along_chunk_axis [[1, 2, 3]] ! 0 ! 0) = 2"
proof -
  have t: "transpose [[1, 1], [0, 0 :: real]] = [[1, 0], [1, 0]]" by simp
  have t3: "transpose [[1, 2, 3 :: real]] = [[1], [2], [3]]" by simp
  have a: "get_fft [[1, 1], [0, 0]] ! 1 ! 0 ! 0 = 0"
    by (simp add: get_fft_def stft_1d_zero_dc)
  have b: "stft_along_chunk_axis [[1, 1], [0, 0]] ! 1 ! 0 ! 0 = 1"
    by (simp add: stft_along_chunk_axis_def t stft_1d_unit_dc del: transpose.simps)
  have "get_fft [[1, 1], [0, 0]] \<noteq> stft_along_chunk_axis [[1, 1], [0, 0]]"
  proof
    assume "get_fft [[1, 1], [0, 0]] = stft_along_chunk_axis [[1, 1], [0, 0]]"
    then have "get_fft [[1, 1], [0, 0]] ! 1 ! 0 ! 0
                 = stft_along_chunk_axis [[1, 1], [0, 0]] ! 1 ! 0 ! 0"
      by (simp only:)
    then show False unfolding a b by simp
  qed
  then show ?thesis
    using a b
    by (simp add: get_fft_def stft_along_chunk_axis_def t3 stft_1d_row_length
        del: transpose.simps)
qed




text \<open>
  C5 (cutoff 0).  With cutoff 0.0 the slice starts at index \<open>int(0.0 * shape[1]) = 0\<close>, so
  every frequency bin is zeroed, the lowest one included: the filtered representation is
  all zero and the sequence reconstructed from the transform of any embedding matrix is
  identically zero.  In the small example array the entry 1 in bin 0 becomes 0.
\<close>

theorem lowpass_cutoff_zero_zeroes_all_bins:
  assumes "shape1 a < 2 ^ 53" and "embedding \<noteq> []"
  shows "lowpass_filtered a (Finite 0) = Inr (map (map (map (\<lambda>x. 0))) a)
         \<and> (\<exists>z. lowpass_filtered (get_fft embedding) (Finite 0) = Inr z
                \<and> fft_to_embedding z = Inr (map (\<lambda>row. replicate (length row) 0) embedding))"
proof -
  have "shape1 (get_fft embedding) < 2 ^ 53" by (simp add: shape1_get_fft[OF assms(2)])
  then have "lowpass_filtered (get_fft embedding) (Finite 0)
               = Inr (map (map (map (\<lambda>x. 0))) (get_fft embedding))"
    by (rule lowpass_filtered_zero)
  then show ?thesis
    using lowpass_filtered_zero[OF assms(1)] fft_to_embedding_zero[OF assms(2)] by simp
qed

theorem lowpass_cutoff_zero_zeroes_all_bins_witness:
  "lowpass_filtered small_spectrum (Finite 0) = Inr (map (map (map (\<lambda>x. 0))) small_spectrum)
   \<and> (\<exists>z. lowpass_filtered (get_fft [[1, 2]]) (Finite 0) = Inr z
          \<and> fft_to_embedding z = Inr (map (\<lambda>row. replicate (length row) 0) [[1, 2 :: real]]))"
  by (rule lowpass_cutoff_zero_zeroes_all_bins) (simp_all add: shape1_def small_spectrum_def)

theorem lowpass_cutoff_zero_counterexample:
  "lowpass_filtered small_spectrum (Finite 0) = Inr [[[0, 0], [0, 0]]]
   \<and> small_spectrum ! 0 ! 0 ! 0 = 1"
proof -
  have "shape1 small_spectrum < 2 ^ 53" by (simp add: shape1_def small_spectrum_def)
  then have "lowpass_filtered small_spectrum (Finite 0) = Inr (map (map (map (\<lambda>x. 0))) small_spectrum)"
    by (rule lowpass_filtered_zero)
  then show ?thesis by (simp add: small_spectrum_def)
qed

end
